theory Spec2Isabelle
  imports Main "HOL-Library.Word"
begin

unbundle bit_operations_syntax

section \<open>Machine types, error numbers and kernel faults\<close>

text \<open>
  The module is built for x86-64 (RHEL7): \<open>int\<close> and \<open>unsigned int\<close> are 32 bits wide,
  \<open>long\<close>, \<open>size_t\<close>, \<open>loff_t\<close>, \<open>sector_t\<close>, \<open>pgoff_t\<close> and pointers are 64 bits wide.
  Words carry no sign: where C compares or converts signed values the model uses
  \<open>sint\<close>, \<open>scast\<close> and \<open>signed_drop_bit\<close>.
\<close>

type_synonym u32 = "32 word"
type_synonym u64 = "64 word"

definition ENOENT :: u32 where "ENOENT = 2"
definition EINTR :: u32 where "EINTR = 4"
definition EIO :: u32 where "EIO = 5"
definition ENOMEM :: u32 where "ENOMEM = 12"
definition EFAULT :: u32 where "EFAULT = 14"
definition EINVAL :: u32 where "EINVAL = 22"
definition ERANGE :: u32 where "ERANGE = 34"

text \<open>
  Ways in which the kernel stops instead of returning: \<open>Assert\<close> calls \<open>panic\<close>; a NULL
  pointer, a freed record or an index past an array are memory errors.
\<close>

datatype fault = AssertFailure | NullDereference | OutOfBounds | UseAfterFree

section \<open>Task registry\<close>

text \<open>A locked page-cache page: its index in the file and its dirty flag.\<close>

datatype page = Page (pg_index: u64) (pg_dirty: bool)

text \<open>
  \<open>struct strom_dma_task\<close>. Pointers are addresses (\<open>None\<close> is NULL); \<open>refcnt\<close> is the
  counter of an \<open>atomic_t\<close>.
\<close>

record strom_dma_task =
  dma_task_id :: u64
  hindex :: nat
  refcnt :: u32
  frozen :: bool
  mgmem :: "u64 option"
  filp :: "u64 option"
  nvme_ns :: u64
  blocksz :: u64
  blocksz_shift :: u32
  start_sect :: u64
  nr_sects :: u64
  max_nblocks :: u32
  dma_status :: u64
  ioctl_filp :: "u64 option"
  dest_offset :: u64
  src_block :: u64
  nr_blocks :: u32
  file_pages :: "page option list"

text \<open>
  What the last \<open>strom_put_dma_task\<close> does outside the task tables, in order.
\<close>

datatype reg_event =
    WakeUpAll nat
  | Kfree u64
  | PutMappedGpuMemory "u64 option"
  | Fput "u64 option"

text \<open>
  The task tables: \<open>strom_dma_task_slots\<close> and \<open>failed_dma_task_slots\<close> chain task
  addresses, \<open>dtask_heap\<close> holds the allocated records (\<open>kfree\<close> removes one).
\<close>

record task_registry =
  strom_dma_task_slots :: "nat \<Rightarrow> u64 list"
  failed_dma_task_slots :: "nat \<Rightarrow> u64 list"
  dtask_heap :: "u64 \<Rightarrow> strom_dma_task option"
  reg_events :: "reg_event list"

definition STROM_DMA_TASK_NSLOTS :: nat where
  "STROM_DMA_TASK_NSLOTS = 240"

text \<open>
  \<open>strom_dma_task_index\<close>; the kernel's \<open>arch_fast_hash\<close> (with the seed applied) is the
  parameter \<open>hash\<close>.
\<close>

definition strom_dma_task_index :: "(u64 \<Rightarrow> u32) \<Rightarrow> u64 \<Rightarrow> nat" where
  "strom_dma_task_index hash dma_task_id' = unat (hash dma_task_id') mod STROM_DMA_TASK_NSLOTS"

text \<open>
  \<open>strom_put_dma_task(dtask, dma_status)\<close>, lines 965-1019. \<open>p\<close> is the pointer
  \<open>dtask\<close>. \<open>list_del_rcu\<close> unlinks the record from the chain it is on.
\<close>

definition strom_put_dma_task :: "u64 \<Rightarrow> u64 \<Rightarrow> task_registry \<Rightarrow> fault + task_registry" where
  "strom_put_dma_task p status r =
     (case dtask_heap r p of
        None \<Rightarrow> Inl UseAfterFree
      | Some dtask0 \<Rightarrow>
          let hx = hindex dtask0;
              dtask1 = (if status \<noteq> 0 \<and> dma_status dtask0 = 0
                        then dtask0\<lparr>dma_status := status\<rparr> else dtask0);
              dtask2 = dtask1\<lparr>refcnt := refcnt dtask1 - 1\<rparr>
          in if refcnt dtask2 = 0 then
               (if \<not> frozen dtask2 then Inl AssertFailure
                else
                  let live' = (strom_dma_task_slots r)(hx := remove1 p (strom_dma_task_slots r hx));
                      failed0 = (failed_dma_task_slots r)(hx := remove1 p (failed_dma_task_slots r hx));
                      evs = [WakeUpAll hx] @
                            (if dma_status dtask2 = 0 then [Kfree p] else []) @
                            [PutMappedGpuMemory (mgmem dtask2), Fput (filp dtask2),
                             Fput (ioctl_filp dtask2)]
                  in if dma_status dtask2 \<noteq> 0 then
                       Inr (r\<lparr>strom_dma_task_slots := live',
                               failed_dma_task_slots := failed0(hx := failed0 hx @ [p]),
                               dtask_heap := (dtask_heap r)(p \<mapsto>
                                  dtask2\<lparr>ioctl_filp := None, filp := None, mgmem := None\<rparr>),
                               reg_events := reg_events r @ evs\<rparr>)
                     else
                       Inr (r\<lparr>strom_dma_task_slots := live',
                               failed_dma_task_slots := failed0,
                               dtask_heap := (dtask_heap r)(p := None),
                               reg_events := reg_events r @ evs\<rparr>))
             else Inr (r\<lparr>dtask_heap := (dtask_heap r)(p \<mapsto> dtask2)\<rparr>))"

text \<open>A run of \<open>strom_put_dma_task\<close> calls on one task, one status per call.\<close>

fun put_all :: "u64 \<Rightarrow> u64 list \<Rightarrow> task_registry \<Rightarrow> fault + task_registry" where
  "put_all p [] r = Inr r"
| "put_all p (status # rest) r =
     (case strom_put_dma_task p status r of
        Inl f \<Rightarrow> Inl f
      | Inr r' \<Rightarrow> put_all p rest r')"

text \<open>The first non-zero status of a list of statuses, 0 when there is none.\<close>

fun first_failure :: "u64 list \<Rightarrow> u64" where
  "first_failure [] = 0"
| "first_failure (status # rest) = (if status \<noteq> 0 then status else first_failure rest)"

text \<open>
  One walk of \<open>list_for_each_entry_rcu\<close> looking for \<open>dma_task_id\<close>: the first chained
  record that carries the id. Reading a chained record that was freed is a fault.
\<close>

fun find_dma_task ::
  "(u64 \<Rightarrow> strom_dma_task option) \<Rightarrow> u64 \<Rightarrow> u64 list \<Rightarrow> fault + (u64 \<times> strom_dma_task) option"
where
  "find_dma_task heap dma_task_id' [] = Inr None"
| "find_dma_task heap dma_task_id' (a # slot) =
     (case heap a of
        None \<Rightarrow> Inl UseAfterFree
      | Some dtask \<Rightarrow>
          if dma_task_id dtask = dma_task_id' then Inr (Some (a, dtask))
          else find_dma_task heap dma_task_id' slot)"

text \<open>
  What one pass of the \<open>for (;;)\<close> loop of \<open>strom_memcpy_ssd2gpu_wait\<close> ends with:
  the function returns (\<open>retval\<close>, and the value stored through \<open>p_dma_task_status\<close>, if
  any), or it takes the spinlock and jumps to \<open>retry\<close>, or it sleeps in \<open>schedule()\<close>
  and starts the next pass when woken.
\<close>

datatype wait_step = WaitReturn u32 "u64 option" | WaitRetry | WaitSleep

text \<open>
  \<open>strom_memcpy_ssd2gpu_wait\<close>, lines 1136-1211, one pass from the label \<open>retry\<close>.
  \<open>want_status\<close> says that \<open>p_dma_task_status\<close> is not NULL, \<open>signal_pending'\<close> is
  the value of \<open>signal_pending(current)\<close>, \<open>has_spinlock\<close> is the local of that name.
  Other threads run between two passes, so the loop itself is the caller's: see
  \<open>reg_run\<close>.
\<close>

definition strom_memcpy_ssd2gpu_wait ::
  "(u64 \<Rightarrow> u32) \<Rightarrow> u64 \<Rightarrow> bool \<Rightarrow> bool \<Rightarrow> bool \<Rightarrow> task_registry
     \<Rightarrow> fault + (wait_step \<times> task_registry)"
where
  "strom_memcpy_ssd2gpu_wait hash dma_task_id' want_status signal_pending' has_spinlock r =
     (let hx = strom_dma_task_index hash dma_task_id' in
      case find_dma_task (dtask_heap r) dma_task_id' (failed_dma_task_slots r hx) of
        Inl f \<Rightarrow> Inl f
      | Inr (Some (a, dtask)) \<Rightarrow>
          if \<not> has_spinlock then Inr (WaitRetry, r)
          else Inr (WaitReturn (- EIO) (if want_status then Some (dma_status dtask) else None),
                    r\<lparr>failed_dma_task_slots :=
                         (failed_dma_task_slots r)(hx := remove1 a (failed_dma_task_slots r hx)),
                       dtask_heap := (dtask_heap r)(a := None),
                       reg_events := reg_events r @ [Kfree a]\<rparr>)
      | Inr None \<Rightarrow>
          (case find_dma_task (dtask_heap r) dma_task_id' (strom_dma_task_slots r hx) of
             Inl f \<Rightarrow> Inl f
           | Inr running \<Rightarrow>
               if running = None then Inr (WaitReturn 0 None, r)
               else if signal_pending' then Inr (WaitReturn (- EINTR) None, r)
               else Inr (WaitSleep, r)))"

text \<open>
  Threads interleave at the granularity of the spinlock: a schedule is a list of
  \<open>strom_put_dma_task\<close> calls and of passes of waiting threads, each pass with the id it
  waits for. \<open>reg_run\<close> collects what every pass ended with.
\<close>

datatype reg_op = OpPut u64 u64 | OpWait u64 bool bool bool

fun reg_run ::
  "(u64 \<Rightarrow> u32) \<Rightarrow> reg_op list \<Rightarrow> task_registry
     \<Rightarrow> fault + ((u64 \<times> wait_step) list \<times> task_registry)"
where
  "reg_run hash [] r = Inr ([], r)"
| "reg_run hash (OpPut p status # ops) r =
     (case strom_put_dma_task p status r of
        Inl f \<Rightarrow> Inl f
      | Inr r' \<Rightarrow> reg_run hash ops r')"
| "reg_run hash (OpWait i want sig lck # ops) r =
     (case strom_memcpy_ssd2gpu_wait hash i want sig lck r of
        Inl f \<Rightarrow> Inl f
      | Inr (step, r') \<Rightarrow>
          (case reg_run hash ops r' of
             Inl f \<Rightarrow> Inl f
           | Inr (outs, r'') \<Rightarrow> Inr ((i, step) # outs, r'')))"

text \<open>
  Well-formed task tables: a record's id is its address (line 913), a chained address is
  allocated and sits in the slot of its \<open>hindex\<close>, no chain holds an address twice, and
  no address is on both chains.
\<close>

definition reg_wf :: "task_registry \<Rightarrow> bool" where
  "reg_wf r \<longleftrightarrow>
     (\<forall>a dtask. dtask_heap r a = Some dtask \<longrightarrow> dma_task_id dtask = a) \<and>
     (\<forall>i a. a \<in> set (strom_dma_task_slots r i) \<union> set (failed_dma_task_slots r i) \<longrightarrow>
        (\<exists>dtask. dtask_heap r a = Some dtask \<and> hindex dtask = i)) \<and>
     (\<forall>i. distinct (strom_dma_task_slots r i) \<and> distinct (failed_dma_task_slots r i) \<and>
        set (strom_dma_task_slots r i) \<inter> set (failed_dma_task_slots r i) = {})"


text \<open>
  A task as \<open>strom_create_dma_task\<close> leaves it (lines 913-930) once frozen, with three
  references held, in tables that hold nothing else.
\<close>

definition example_dtask :: strom_dma_task where
  "example_dtask =
     \<lparr>dma_task_id = 4096, hindex = 7, refcnt = 3, frozen = True, mgmem = Some 8192,
      filp = Some 12288, nvme_ns = 20480, blocksz = 4096, blocksz_shift = 12, start_sect = 2048,
      nr_sects = 1000000, max_nblocks = 32, dma_status = 0, ioctl_filp = Some 16384,
      dest_offset = 0, src_block = 0, nr_blocks = 0, file_pages = replicate 32 None\<rparr>"

definition example_registry :: task_registry where
  "example_registry =
     \<lparr>strom_dma_task_slots = (\<lambda>i. if i = 7 then [4096] else []),
      failed_dma_task_slots = (\<lambda>i. []),
      dtask_heap = (\<lambda>a. if a = 4096 then Some example_dtask else None),
      reg_events = []\<rparr>"

section \<open>Mapping registry\<close>

text \<open>
  \<open>nvidia_p2p_page_table_t\<close> as the driver reads it: the number of entries and the
  physical address of every page.
\<close>

record nvidia_p2p_page_table =
  pt_version :: u32
  pt_page_size :: u32
  pt_entries :: u32
  pt_pages :: "u64 list"

text \<open>
  \<open>struct mapped_gpu_memory\<close>. \<open>refcnt\<close> is a plain \<open>int\<close>: 32 bits, read as signed,
  and \<open>refcnt++\<close> at \<open>INT_MAX\<close> gives \<open>INT_MIN\<close>, as the machine's addition does. The
  chain membership is the slot list of the registry.
\<close>

record mapped_gpu_memory =
  mg_hindex :: nat
  mg_refcnt :: "32 word"
  owner :: u32
  handle :: u64
  map_address :: u64
  map_offset :: u64
  map_length :: u64
  wait_task :: "u64 option"
  gpu_page_sz :: u64
  gpu_page_shift :: u64
  page_table :: nvidia_p2p_page_table

datatype mg_event =
    WakeUpProcess u64
  | FreePageTable u64
  | KfreeMgmem u64
  | PutPages u64
  | ModulePut

record mgmem_registry =
  strom_mgmem_slots :: "nat \<Rightarrow> u64 list"
  mgmem_heap :: "u64 \<Rightarrow> mapped_gpu_memory option"
  mg_events :: "mg_event list"

definition MAPPED_GPU_MEMORY_NSLOTS :: nat where
  "MAPPED_GPU_MEMORY_NSLOTS = 48"

text \<open>The largest value of an \<open>int\<close>.\<close>

definition INT_MAX :: int where
  "INT_MAX = 2147483647"

definition strom_mapped_gpu_memory_index :: "(u64 \<Rightarrow> u32) \<Rightarrow> u64 \<Rightarrow> nat" where
  "strom_mapped_gpu_memory_index hash handle' = unat (hash handle') mod MAPPED_GPU_MEMORY_NSLOTS"

text \<open>
  The walk of \<open>list_for_each_entry\<close> in \<open>strom_get_mapped_gpu_memory\<close> and
  \<open>ioctl_unmap_gpu_memory\<close>: the first chained record with this handle and owner.
\<close>

fun find_mgmem ::
  "(u64 \<Rightarrow> mapped_gpu_memory option) \<Rightarrow> u64 \<Rightarrow> u32 \<Rightarrow> u64 list
     \<Rightarrow> fault + (u64 \<times> mapped_gpu_memory) option"
where
  "find_mgmem heap handle' euid [] = Inr None"
| "find_mgmem heap handle' euid (a # slot) =
     (case heap a of
        None \<Rightarrow> Inl UseAfterFree
      | Some mg \<Rightarrow>
          if handle mg = handle' \<and> owner mg = euid then Inr (Some (a, mg))
          else find_mgmem heap handle' euid slot)"

text \<open>
  \<open>strom_get_mapped_gpu_memory(handle)\<close>, lines 164-194; \<open>euid\<close> is \<open>current_euid()\<close>.
  The result is the pointer, or \<open>None\<close> for NULL.
\<close>

definition strom_get_mapped_gpu_memory ::
  "(u64 \<Rightarrow> u32) \<Rightarrow> u64 \<Rightarrow> u32 \<Rightarrow> mgmem_registry \<Rightarrow> fault + (u64 option \<times> mgmem_registry)"
where
  "strom_get_mapped_gpu_memory hash handle' euid s =
     (let index = strom_mapped_gpu_memory_index hash handle' in
      case find_mgmem (mgmem_heap s) handle' euid (strom_mgmem_slots s index) of
        Inl f \<Rightarrow> Inl f
      | Inr None \<Rightarrow> Inr (None, s)
      | Inr (Some (a, mg)) \<Rightarrow>
          if a \<noteq> handle' then Inl AssertFailure
          else if mg_hindex mg \<noteq> index then Inl AssertFailure
          else Inr (Some a, s\<lparr>mgmem_heap := (mgmem_heap s)(a \<mapsto> mg\<lparr>mg_refcnt := mg_refcnt mg + 1\<rparr>)\<rparr>))"

text \<open>\<open>strom_put_mapped_gpu_memory(mgmem)\<close>, lines 199-215.\<close>

definition strom_put_mapped_gpu_memory :: "u64 \<Rightarrow> mgmem_registry \<Rightarrow> fault + mgmem_registry" where
  "strom_put_mapped_gpu_memory p s =
     (case mgmem_heap s p of
        None \<Rightarrow> Inl UseAfterFree
      | Some mg \<Rightarrow>
          if \<not> 0 <s mg_refcnt mg then Inl AssertFailure
          else if mg_refcnt mg - 1 = 0 then
            Inr (s\<lparr>mgmem_heap := (mgmem_heap s)(p \<mapsto> mg\<lparr>mg_refcnt := mg_refcnt mg - 1,
                                                            wait_task := None\<rparr>),
                   mg_events := mg_events s @
                     (case wait_task mg of None \<Rightarrow> [] | Some t \<Rightarrow> [WakeUpProcess t])\<rparr>)
          else Inr (s\<lparr>mgmem_heap := (mgmem_heap s)(p \<mapsto> mg\<lparr>mg_refcnt := mg_refcnt mg - 1\<rparr>)\<rparr>))"

text \<open>
  \<open>callback_release_mapped_gpu_memory(private)\<close>, lines 220-279, runs in three steps
  with other threads in between. Where the callback thread stands:
  before the call, asleep in \<open>schedule()\<close> (with the local \<open>wait_task_saved\<close>), past the
  last \<open>spin_unlock_irqrestore\<close> (line 264), or returned.
\<close>

datatype cb_pc = CbIdle | CbSleeping "u64 option" | CbUnlocked | CbReturned

text \<open>
  Lines 223-256: detach the record if it is still chained; with references
  outstanding, register as the waiter and sleep.
\<close>

definition callback_release_enter ::
  "u64 \<Rightarrow> u64 \<Rightarrow> mgmem_registry \<Rightarrow> fault + (cb_pc \<times> mgmem_registry)"
where
  "callback_release_enter private current s =
     (case mgmem_heap s private of
        None \<Rightarrow> Inl UseAfterFree
      | Some mg \<Rightarrow>
          if private \<noteq> handle mg then Inl AssertFailure
          else
            let hx = mg_hindex mg;
                slots' = (if private \<in> set (strom_mgmem_slots s hx)
                          then (strom_mgmem_slots s)(hx := remove1 private (strom_mgmem_slots s hx))
                          else strom_mgmem_slots s)
            in if 0 <s mg_refcnt mg then
                 Inr (CbSleeping (wait_task mg),
                      s\<lparr>strom_mgmem_slots := slots',
                        mgmem_heap := (mgmem_heap s)(private \<mapsto> mg\<lparr>wait_task := Some current\<rparr>)\<rparr>)
               else Inr (CbUnlocked, s\<lparr>strom_mgmem_slots := slots'\<rparr>))"

text \<open>
  Lines 258-264, when \<open>schedule()\<close> has returned: wake the saved waiter and assert
  that no reference is left.
\<close>

definition callback_release_wake ::
  "u64 \<Rightarrow> u64 option \<Rightarrow> mgmem_registry \<Rightarrow> fault + (cb_pc \<times> mgmem_registry)"
where
  "callback_release_wake private wait_task_saved s =
     (case mgmem_heap s private of
        None \<Rightarrow> Inl UseAfterFree
      | Some mg \<Rightarrow>
          if mg_refcnt mg \<noteq> 0 then Inl AssertFailure
          else Inr (CbUnlocked,
                    s\<lparr>mg_events := mg_events s @
                        (case wait_task_saved of None \<Rightarrow> [] | Some t \<Rightarrow> [WakeUpProcess t])\<rparr>))"

text \<open>Lines 270-278: free the page table and the record.\<close>

definition callback_release_free :: "u64 \<Rightarrow> mgmem_registry \<Rightarrow> fault + (cb_pc \<times> mgmem_registry)" where
  "callback_release_free private s =
     (case mgmem_heap s private of
        None \<Rightarrow> Inl UseAfterFree
      | Some mg \<Rightarrow>
          Inr (CbReturned,
               s\<lparr>mgmem_heap := (mgmem_heap s)(private := None),
                 mg_events := mg_events s @ [FreePageTable private, KfreeMgmem private, ModulePut]\<rparr>))"

text \<open>
  \<open>ioctl_unmap_gpu_memory\<close>, lines 405-449, after \<open>copy_from_user\<close>: unchain the record
  and hand the pages back to the driver. The result is the return value.
\<close>

definition ioctl_unmap_gpu_memory ::
  "(u64 \<Rightarrow> u32) \<Rightarrow> (u64 \<Rightarrow> u32) \<Rightarrow> u64 \<Rightarrow> u32 \<Rightarrow> mgmem_registry \<Rightarrow> fault + (u32 \<times> mgmem_registry)"
where
  "ioctl_unmap_gpu_memory hash nvidia_p2p_put_pages handle' euid s =
     (let i = strom_mapped_gpu_memory_index hash handle' in
      case find_mgmem (mgmem_heap s) handle' euid (strom_mgmem_slots s i) of
        Inl f \<Rightarrow> Inl f
      | Inr None \<Rightarrow> Inr (- ENOENT, s)
      | Inr (Some (a, mg)) \<Rightarrow>
          Inr (nvidia_p2p_put_pages a,
               s\<lparr>strom_mgmem_slots := (strom_mgmem_slots s)(i := remove1 a (strom_mgmem_slots s i)),
                 mg_events := mg_events s @ [PutPages a]\<rparr>))"

text \<open>
  One mapping \<open>h\<close> under a schedule of threads: tasks acquire it (with their euid)
  and release it, its owner may unmap it, and the driver's callback thread runs its three
  steps. \<open>schedule()\<close> returns when the thread is woken; the model lets it return at any
  moment, which covers every wake-up. A step of the callback that is not the thread's
  next one leaves the state as it is.
\<close>

datatype mg_op = Acquire u32 | Release | Unmap u32 | RevokeEnter u64 | RevokeWake | RevokeFree

record mg_system =
  registry :: mgmem_registry
  cb :: cb_pc

definition mg_step ::
  "(u64 \<Rightarrow> u32) \<Rightarrow> (u64 \<Rightarrow> u32) \<Rightarrow> u64 \<Rightarrow> mg_op \<Rightarrow> mg_system \<Rightarrow> fault + mg_system"
where
  "mg_step hash put_pages h op' y =
     (case op' of
        Acquire euid \<Rightarrow>
          (case strom_get_mapped_gpu_memory hash h euid (registry y) of
             Inl f \<Rightarrow> Inl f | Inr (_, s') \<Rightarrow> Inr (y\<lparr>registry := s'\<rparr>))
      | Release \<Rightarrow>
          (case strom_put_mapped_gpu_memory h (registry y) of
             Inl f \<Rightarrow> Inl f | Inr s' \<Rightarrow> Inr (y\<lparr>registry := s'\<rparr>))
      | Unmap euid \<Rightarrow>
          (case ioctl_unmap_gpu_memory hash put_pages h euid (registry y) of
             Inl f \<Rightarrow> Inl f | Inr (_, s') \<Rightarrow> Inr (y\<lparr>registry := s'\<rparr>))
      | RevokeEnter current \<Rightarrow>
          (case cb y of
             CbIdle \<Rightarrow>
               (case callback_release_enter h current (registry y) of
                  Inl f \<Rightarrow> Inl f | Inr (pc, s') \<Rightarrow> Inr \<lparr>registry = s', cb = pc\<rparr>)
           | _ \<Rightarrow> Inr y)
      | RevokeWake \<Rightarrow>
          (case cb y of
             CbSleeping saved \<Rightarrow>
               (case callback_release_wake h saved (registry y) of
                  Inl f \<Rightarrow> Inl f | Inr (pc, s') \<Rightarrow> Inr \<lparr>registry = s', cb = pc\<rparr>)
           | _ \<Rightarrow> Inr y)
      | RevokeFree \<Rightarrow>
          (case cb y of
             CbUnlocked \<Rightarrow>
               (case callback_release_free h (registry y) of
                  Inl f \<Rightarrow> Inl f | Inr (pc, s') \<Rightarrow> Inr \<lparr>registry = s', cb = pc\<rparr>)
           | _ \<Rightarrow> Inr y))"

fun mg_run ::
  "(u64 \<Rightarrow> u32) \<Rightarrow> (u64 \<Rightarrow> u32) \<Rightarrow> u64 \<Rightarrow> mg_op list \<Rightarrow> mg_system \<Rightarrow> fault + mg_system"
where
  "mg_run hash put_pages h [] y = Inr y"
| "mg_run hash put_pages h (op' # ops) y =
     (case mg_step hash put_pages h op' y of
        Inl f \<Rightarrow> Inl f
      | Inr y' \<Rightarrow> mg_run hash put_pages h ops y')"

text \<open>
  A mapping as \<open>ioctl_map_gpu_memory\<close> registers it (lines 305-388): the record's
  handle is its address, its \<open>hindex\<close> is the slot of the handle, it carries no
  reference, every chained address is allocated, and the record is chained at most once
  and only in its slot. The callback has not been called.
\<close>

definition mg_registered :: "(u64 \<Rightarrow> u32) \<Rightarrow> u64 \<Rightarrow> mg_system \<Rightarrow> bool" where
  "mg_registered hash h y \<longleftrightarrow>
     cb y = CbIdle \<and>
     (\<exists>mg. mgmem_heap (registry y) h = Some mg \<and> mg_refcnt mg = 0 \<and>
           mg_hindex mg = strom_mapped_gpu_memory_index hash h) \<and>
     (\<forall>a mg. mgmem_heap (registry y) a = Some mg \<longrightarrow> handle mg = a) \<and>
     (\<forall>i. h \<in> set (strom_mgmem_slots (registry y) i) \<longrightarrow>
          i = strom_mapped_gpu_memory_index hash h) \<and>
     distinct (strom_mgmem_slots (registry y) (strom_mapped_gpu_memory_index hash h))"

text \<open>
  What holds of the mapping \<open>h\<close> in every state of a schedule: handles are addresses,
  the count is not negative, the record is chained at most once and only in its slot,
  once the callback has started the record is unchained, and past the callback's last
  unlock the record exists with no reference.
\<close>

definition mg_inv :: "(u64 \<Rightarrow> u32) \<Rightarrow> u64 \<Rightarrow> mg_system \<Rightarrow> bool" where
  "mg_inv hash h y \<longleftrightarrow>
     (\<forall>a mg. mgmem_heap (registry y) a = Some mg \<longrightarrow> handle mg = a) \<and>
     (\<forall>mg. mgmem_heap (registry y) h = Some mg \<longrightarrow>
        0 \<le>s mg_refcnt mg \<and> mg_hindex mg = strom_mapped_gpu_memory_index hash h) \<and>
     (\<forall>i. h \<in> set (strom_mgmem_slots (registry y) i) \<longrightarrow>
          i = strom_mapped_gpu_memory_index hash h) \<and>
     distinct (strom_mgmem_slots (registry y) (strom_mapped_gpu_memory_index hash h)) \<and>
     (cb y \<noteq> CbIdle \<longrightarrow>
        h \<notin> set (strom_mgmem_slots (registry y) (strom_mapped_gpu_memory_index hash h))) \<and>
     (cb y = CbUnlocked \<longrightarrow> (\<exists>mg. mgmem_heap (registry y) h = Some mg \<and> mg_refcnt mg = 0))"

text \<open>A 1 MiB mapping in 64 KiB pages, owned by user 1000, registered in slot 5.\<close>

definition example_page_table :: nvidia_p2p_page_table where
  "example_page_table =
     \<lparr>pt_version = 65536, pt_page_size = 1, pt_entries = 16,
      pt_pages = map (\<lambda>i. 0x7f0000000000 + 65536 * of_nat i) [0..<16]\<rparr>"

definition example_mgmem :: mapped_gpu_memory where
  "example_mgmem =
     \<lparr>mg_hindex = 5, mg_refcnt = 0, owner = 1000, handle = 8192, map_address = 0x200000000,
      map_offset = 0, map_length = 1048576, wait_task = None, gpu_page_sz = 65536,
      gpu_page_shift = 16, page_table = example_page_table\<rparr>"

definition example_mg_system :: mg_system where
  "example_mg_system =
     \<lparr>registry = \<lparr>strom_mgmem_slots = (\<lambda>i. if i = 5 then [8192] else []),
                  mgmem_heap = (\<lambda>a. if a = 8192 then Some example_mgmem else None),
                  mg_events = []\<rparr>,
      cb = CbIdle\<rparr>"

text \<open>
  The references a schedule holds, counted on the schedule alone: every acquire takes
  one, every release gives one back. \<open>held_below ops b\<close> says that, starting with \<open>b\<close>
  references held, no acquire of \<open>ops\<close> is made while \<open>INT_MAX\<close> references are held.
\<close>

fun held_below :: "mg_op list \<Rightarrow> int \<Rightarrow> bool" where
  "held_below [] b = True"
| "held_below (Acquire euid # ops) b = (b < INT_MAX \<and> held_below ops (b + 1))"
| "held_below (Release # ops) b = held_below ops (b - 1)"
| "held_below (op' # ops) b = held_below ops b"

text \<open>
  A hash that sends every handle to slot 5, and an \<open>nvidia_p2p_put_pages\<close> that
  succeeds.
\<close>

definition example_hash :: "u64 \<Rightarrow> u32" where
  "example_hash handle' = 5"

definition example_put_pages :: "u64 \<Rightarrow> u32" where
  "example_put_pages a = 0"




section \<open>Request scheduler\<close>

definition PAGE_CACHE_SHIFT :: nat where
  "PAGE_CACHE_SHIFT = 12"

definition PAGE_CACHE_SIZE :: u64 where
  "PAGE_CACHE_SIZE = 4096"

definition STROM_DMA_SSD2GPU_MAXLEN :: u64 where
  "STROM_DMA_SSD2GPU_MAXLEN = 128 * 1024"

definition EXT4_SUPER_MAGIC :: u64 where
  "EXT4_SUPER_MAGIC = 0xEF53"

definition XFS_SB_MAGIC :: u64 where
  "XFS_SB_MAGIC = 0x58465342"

definition ENOTSUPP :: u32 where
  "ENOTSUPP = 524"

text \<open>
  Modelled from the spec: \<open>StromCmd__MemCpySsdToGpuWriteBack\<close> is declared in
  \<open>nvme_strom.h\<close>, which is not among the sources. The fields are the inputs and outputs
  of SubmitCopyTask in the spec's external interface, under the names the source uses. The
  counters are \<open>unsigned int\<close> (the source passes \<open>&karg->nr_dma_submit\<close> and
  \<open>&karg->nr_dma_blocks\<close> as \<open>unsigned int *\<close>), the chunk ids are \<open>uint32_t\<close>; the
  chunk size, the chunk count and the segment size are taken as \<open>unsigned int\<close> as well,
  the offset as \<open>size_t\<close>, the buffer as a user address.
\<close>

record StromCmd_MemCpySsdToGpuWriteBack =
  k_dma_task_id :: u64
  nr_ram2gpu :: u32
  nr_ssd2gpu :: u32
  nr_dma_submit :: u32
  nr_dma_blocks :: u32
  k_handle :: u64
  offset :: u64
  file_desc :: u32
  nr_chunks :: u32
  chunk_sz :: u32
  relseg_sz :: u32
  chunk_ids :: u64
  wb_buffer :: u64

text \<open>
  What the scheduler asks of the rest of the kernel, as functions of the arguments
  that matter: the size of the source file, the filesystem's block lookup (return value
  and \<open>bh.b_blocknr\<close> for a logical block), reading a page that is not cached (\<open>Some e\<close>:
  \<open>IS_ERR\<close> with \<open>PTR_ERR\<close> \<open>e\<close>), the three user-copy primitives (bytes left, for a
  user address and a page index), whether \<open>kmalloc\<close> in \<open>nvme_alloc_iod\<close> succeeds, and
  \<open>nvme_submit_async_read_cmd\<close> of \<open>nvme_strom.rhel7.c\<close> (its return value for the source
  blocks and the scatter list of a request).
\<close>

record kenv =
  i_size :: u64
  s_magic :: u64
  ext4_get_block :: "u64 \<Rightarrow> u32 \<times> u64"
  xfs_get_blocks :: "u64 \<Rightarrow> u32 \<times> u64"
  read_mapping_page :: "u64 \<Rightarrow> u32 option"
  fault_in_pages_writeable :: "u64 \<Rightarrow> u32"
  copy_to_user_inatomic :: "u64 \<Rightarrow> u64 \<Rightarrow> u64"
  copy_to_user :: "u64 \<Rightarrow> u64 \<Rightarrow> u64"
  kmalloc_iod :: "u64 \<Rightarrow> bool"
  nvme_submit_async_read_cmd :: "u64 \<Rightarrow> u32 \<Rightarrow> (u64 \<times> u32) list \<Rightarrow> u32"

text \<open>
  What a batch does to the world outside its own records, in order: the two paths a
  chunk can take (with the chunk id, the file offset and the destination), every request
  handed to \<open>nvme_submit_async_read_cmd\<close> (source block, block count, destination
  offset, scatter list, return value), and every page copied to user space.
\<close>

datatype kcall =
    CallWriteback u32 u64 u64
  | CallSubmitDma u32 u64 u64
  | NvmeSubmit u64 u32 u64 "(u64 \<times> u32) list" u32
  | CopyToUser u64 page

text \<open>
  The page cache of the source file (\<open>Some dirty\<close> for a resident page), the pages
  this thread holds locked, and the calls so far.
\<close>

record world =
  page_cache :: "u64 \<Rightarrow> bool option"
  locked_pages :: "u64 list"
  trace :: "kcall list"

text \<open>
  The state of one \<open>memcpy_ssd2gpu_writeback\<close> call: the command, the task, the array
  \<open>chunk_ids_out\<close> and the world.
\<close>

record batch_state =
  b_karg :: StromCmd_MemCpySsdToGpuWriteBack
  b_dtask :: strom_dma_task
  b_out :: "u32 list"
  b_world :: world

text \<open>\<open>strom_get_block\<close>, lines 557-569.\<close>

definition strom_get_block :: "kenv \<Rightarrow> u64 \<Rightarrow> u32 \<times> u64" where
  "strom_get_block env iblock =
     (if s_magic env = EXT4_SUPER_MAGIC then ext4_get_block env iblock
      else if s_magic env = XFS_SB_MAGIC then xfs_get_blocks env iblock
      else (- ENOTSUPP, 0))"

text \<open>
  The \<open>for\<close> loop of \<open>submit_ssd2gpu_memcpy\<close>, lines 1101-1116, with \<open>n\<close> iterations
  to go: \<open>idx\<close> is \<open>base + i\<close>, the result is what is left of \<open>total_nbytes\<close> and the
  scatter list. Reading \<open>pages[base + i]\<close> outside the page table is a fault.
\<close>

fun build_sg ::
  "u64 list \<Rightarrow> u64 \<Rightarrow> nat \<Rightarrow> int \<Rightarrow> u64 \<Rightarrow> u64 \<Rightarrow> (u64 \<times> u32) list
     \<Rightarrow> fault + (u64 \<times> (u64 \<times> u32) list)"
where
  "build_sg pages page_sz 0 idx offs total_nbytes sg = Inr (total_nbytes, sg)"
| "build_sg pages page_sz (Suc n) idx offs total_nbytes sg =
     (if total_nbytes = 0 then Inr (total_nbytes, sg)
      else if idx < 0 \<or> int (length pages) \<le> idx then Inl OutOfBounds
      else
        let base_addr = pages ! nat idx;
            len = (ucast (min total_nbytes (page_sz - offs)) :: u32)
        in build_sg pages page_sz n (idx + 1) 0 (total_nbytes - scast len)
             (sg @ [(base_addr + offs, len)]))"

text \<open>
  \<open>submit_ssd2gpu_memcpy(dtask)\<close>, lines 1066-1131. \<open>nvme_alloc_iod\<close> (lines 1031-1064)
  calls \<open>sg_init_table(iod->sg, nsegs)\<close> also when \<open>kmalloc\<close> returned NULL, so a failed
  allocation is a NULL dereference and line 1094 is never reached; the sizes it computes
  only size the allocation. Shift counts are below the width of the shifted value
  (\<open>file_is_supported_nvme\<close> refuses a block size above the page size).
\<close>

definition submit_ssd2gpu_memcpy ::
  "kenv \<Rightarrow> mapped_gpu_memory \<Rightarrow> strom_dma_task \<Rightarrow> world \<Rightarrow> fault + (u32 \<times> world)"
where
  "submit_ssd2gpu_memcpy env mg d w =
     (let total_nbytes = (ucast (push_bit (unat (blocksz_shift d)) (nr_blocks d)) :: u64) in
      if total_nbytes = 0 \<or> total_nbytes > STROM_DMA_SSD2GPU_MAXLEN then Inr (- EINVAL, w)
      else if dest_offset d < map_offset mg \<or>
              dest_offset d + total_nbytes > map_offset mg + map_length mg
      then Inr (- ERANGE, w)
      else if \<not> kmalloc_iod env total_nbytes then Inl NullDereference
      else
        let base = (ucast (signed_drop_bit (unat (gpu_page_shift mg)) (dest_offset d)) :: u32);
            offs = dest_offset d AND (gpu_page_sz mg - 1)
        in case build_sg (pt_pages (page_table mg)) (gpu_page_sz mg)
                  (unat (pt_entries (page_table mg))) (sint base) offs total_nbytes [] of
             Inl f \<Rightarrow> Inl f
           | Inr (left, sg) \<Rightarrow>
               if left \<noteq> 0 then Inr (- EINVAL, w)
               else
                 let retval = nvme_submit_async_read_cmd env (src_block d) (nr_blocks d) sg
                 in Inr (retval,
                         w\<lparr>trace := trace w @
                              [NvmeSubmit (src_block d) (nr_blocks d) (dest_offset d) sg retval]\<rparr>))"

text \<open>
  One iteration of the loop of \<open>__memcpy_ssd2gpu_submit_dma\<close>, lines 1317-1358, for the
  page at \<open>fpos\<close> with the destination \<open>curr_offset\<close>. The result is \<open>retval\<close> (not 0: the
  loop breaks) and the state.
\<close>

definition submit_dma_page ::
  "kenv \<Rightarrow> mapped_gpu_memory \<Rightarrow> u64 \<Rightarrow> u64 \<Rightarrow> batch_state \<Rightarrow> fault + (u32 \<times> batch_state)"
where
  "submit_dma_page env mg fpos curr_offset st =
     (let d = b_dtask st;
          (retval, b_blocknr) =
             strom_get_block env (signed_drop_bit (unat (blocksz_shift d)) fpos)
      in if retval \<noteq> 0 then Inr (retval, st)
         else
           let nr_blocks' = (ucast (drop_bit (unat (blocksz_shift d)) PAGE_CACHE_SIZE) :: u32) in
           if nr_blocks d > 0 \<and>
              nr_blocks d + nr_blocks' \<le> max_nblocks d \<and>
              src_block d + ucast (nr_blocks d) = b_blocknr \<and>
              dest_offset d + ucast (nr_blocks d) * blocksz d = curr_offset
           then Inr (0, st\<lparr>b_dtask := d\<lparr>nr_blocks := nr_blocks d + nr_blocks'\<rparr>\<rparr>)
           else if nr_blocks d > 0 then
             (let k = b_karg st;
                  k' = k\<lparr>nr_dma_submit := nr_dma_submit k + 1,
                         nr_dma_blocks := nr_dma_blocks k + nr_blocks d\<rparr>
              in case submit_ssd2gpu_memcpy env mg d (b_world st) of
                   Inl f \<Rightarrow> Inl f
                 | Inr (retval', w') \<Rightarrow>
                     if retval' \<noteq> 0 then Inr (retval', st\<lparr>b_karg := k', b_world := w'\<rparr>)
                     else Inr (0, st\<lparr>b_karg := k', b_world := w',
                                     b_dtask := d\<lparr>dest_offset := curr_offset,
                                                  src_block := b_blocknr,
                                                  nr_blocks := nr_blocks'\<rparr>\<rparr>))
           else Inr (0, st\<lparr>b_dtask := d\<lparr>dest_offset := curr_offset,
                                        src_block := b_blocknr,
                                        nr_blocks := nr_blocks'\<rparr>\<rparr>))"

text \<open>The loop of \<open>__memcpy_ssd2gpu_submit_dma\<close> with \<open>n\<close> pages to go.\<close>

fun submit_dma_loop ::
  "kenv \<Rightarrow> mapped_gpu_memory \<Rightarrow> nat \<Rightarrow> u64 \<Rightarrow> u64 \<Rightarrow> batch_state \<Rightarrow> fault + (u32 \<times> batch_state)"
where
  "submit_dma_loop env mg 0 fpos curr_offset st = Inr (0, st)"
| "submit_dma_loop env mg (Suc n) fpos curr_offset st =
     (case submit_dma_page env mg fpos curr_offset st of
        Inl f \<Rightarrow> Inl f
      | Inr (retval, st') \<Rightarrow>
          if retval \<noteq> 0 then Inr (retval, st')
          else submit_dma_loop env mg n (fpos + PAGE_CACHE_SIZE) (curr_offset + PAGE_CACHE_SIZE) st')"

text \<open>
  \<open>__memcpy_ssd2gpu_submit_dma\<close>, lines 1301-1361 (the two leading underscores are
  written \<open>uu_\<close>). \<open>nr_pages\<close> is an \<open>int\<close> here; the counters live in the command.
\<close>

definition uu_memcpy_ssd2gpu_submit_dma ::
  "kenv \<Rightarrow> mapped_gpu_memory \<Rightarrow> u32 \<Rightarrow> u64 \<Rightarrow> u64 \<Rightarrow> batch_state \<Rightarrow> fault + (u32 \<times> batch_state)"
where
  "uu_memcpy_ssd2gpu_submit_dma env mg nr_pages fpos dest_offset' st =
     submit_dma_loop env mg (nat (sint nr_pages)) fpos dest_offset' st"

text \<open>
  One iteration of the loop of \<open>__memcpy_ssd2gpu_writeback\<close>, lines 1254-1293: page
  \<open>i\<close> of the chunk, copied to \<open>dest_uaddr\<close>.
\<close>

definition writeback_page ::
  "kenv \<Rightarrow> u64 \<Rightarrow> nat \<Rightarrow> u64 \<Rightarrow> batch_state \<Rightarrow> fault + (u32 \<times> batch_state)"
where
  "writeback_page env fp_index i dest_uaddr st =
     (let d = b_dtask st; w = b_world st in
      if length (file_pages d) \<le> i then Inl OutOfBounds
      else
        let got =
          (case file_pages d ! i of
             Some fpage \<Rightarrow> Inr (fpage, st)
           | None \<Rightarrow>
               (case read_mapping_page env (fp_index + of_nat i) of
                  Some e \<Rightarrow> Inl e
                | None \<Rightarrow>
                    let idx = fp_index + of_nat i;
                        fpage = Page idx (case page_cache w idx of None \<Rightarrow> False | Some dirty \<Rightarrow> dirty)
                    in Inr (fpage,
                            st\<lparr>b_dtask := d\<lparr>file_pages := (file_pages d)[i := Some fpage]\<rparr>,
                               b_world := w\<lparr>page_cache := (page_cache w)(idx := Some (pg_dirty fpage)),
                                           locked_pages := idx # locked_pages w\<rparr>\<rparr>)))
        in case got of
             Inl e \<Rightarrow> Inr (e, st)
           | Inr (fpage, st1) \<Rightarrow>
               let left = (if fault_in_pages_writeable env dest_uaddr \<noteq> 0 then 1
                           else copy_to_user_inatomic env dest_uaddr (pg_index fpage));
                   left' = (if left \<noteq> 0 then copy_to_user env dest_uaddr (pg_index fpage) else 0)
               in if left' \<noteq> 0 then Inr (- EFAULT, st1)
                  else Inr (0, st1\<lparr>b_world := (b_world st1)
                                     \<lparr>trace := trace (b_world st1) @ [CopyToUser dest_uaddr fpage]\<rparr>\<rparr>))"

fun writeback_loop ::
  "kenv \<Rightarrow> u64 \<Rightarrow> nat \<Rightarrow> nat \<Rightarrow> u64 \<Rightarrow> batch_state \<Rightarrow> fault + (u32 \<times> batch_state)"
where
  "writeback_loop env fp_index 0 i dest_uaddr st = Inr (0, st)"
| "writeback_loop env fp_index (Suc n) i dest_uaddr st =
     (case writeback_page env fp_index i dest_uaddr st of
        Inl f \<Rightarrow> Inl f
      | Inr (retval, st') \<Rightarrow>
          if retval \<noteq> 0 then Inr (retval, st')
          else writeback_loop env fp_index n (Suc i) (dest_uaddr + PAGE_CACHE_SIZE) st')"

text \<open>\<open>__memcpy_ssd2gpu_writeback\<close>, lines 1239-1296.\<close>

definition uu_memcpy_ssd2gpu_writeback ::
  "kenv \<Rightarrow> u32 \<Rightarrow> u64 \<Rightarrow> u64 \<Rightarrow> batch_state \<Rightarrow> fault + (u32 \<times> batch_state)"
where
  "uu_memcpy_ssd2gpu_writeback env nr_pages fpos dest_uaddr st =
     writeback_loop env (signed_drop_bit PAGE_CACHE_SHIFT fpos) (nat (sint nr_pages)) 0 dest_uaddr st"

text \<open>\<open>find_lock_page(filp->f_mapping, index)\<close>: the resident page, locked, or NULL.\<close>

definition find_lock_page :: "world \<Rightarrow> u64 \<Rightarrow> page option \<times> world" where
  "find_lock_page w index =
     (case page_cache w index of
        None \<Rightarrow> (None, w)
      | Some dirty \<Rightarrow> (Some (Page index dirty), w\<lparr>locked_pages := index # locked_pages w\<rparr>))"

text \<open>
  The scoring loop of \<open>memcpy_ssd2gpu_writeback\<close>, lines 1408-1414, with \<open>n\<close> pages to
  go. \<open>k\<close> is the \<open>int\<close> of the source; it becomes a \<open>pgoff_t\<close> at the call.
\<close>

fun score_loop ::
  "nat \<Rightarrow> nat \<Rightarrow> u32 \<Rightarrow> u32 \<Rightarrow> u32 \<times> strom_dma_task \<times> world
     \<Rightarrow> fault + (u32 \<times> strom_dma_task \<times> world)"
where
  "score_loop 0 j k threshold (score, d, w) = Inr (score, d, w)"
| "score_loop (Suc n) j k threshold (score, d, w) =
     (if length (file_pages d) \<le> j then Inl OutOfBounds
      else
        let (fpage, w') = find_lock_page w (scast k);
            d' = d\<lparr>file_pages := (file_pages d)[j := fpage]\<rparr>;
            score' = (case fpage of
                        None \<Rightarrow> score
                      | Some pg \<Rightarrow> score + (if pg_dirty pg then threshold + 1 else 1))
        in score_loop n (Suc j) (k + 1) threshold (score', d', w'))"

text \<open>The unlock loop, lines 1451-1459.\<close>

definition unlock_pages :: "u32 \<Rightarrow> strom_dma_task \<Rightarrow> world \<Rightarrow> world" where
  "unlock_pages nr_pages d w =
     w\<lparr>locked_pages :=
         foldl (\<lambda>l fpage. case fpage of None \<Rightarrow> l | Some pg \<Rightarrow> remove1 (pg_index pg) l)
           (locked_pages w) (take (unat nr_pages) (file_pages d))\<rparr>"

text \<open>The file offset of a chunk, lines 1400-1403; \<open>chunk_id\<close> and \<open>fpos\<close> are \<open>loff_t\<close>.\<close>

definition chunk_fpos :: "StromCmd_MemCpySsdToGpuWriteBack \<Rightarrow> u32 \<Rightarrow> u64" where
  "chunk_fpos k cid =
     (let chunk_id = (ucast cid :: u64) in
      if relseg_sz k = 0 then chunk_id * ucast (chunk_sz k)
      else (chunk_id mod ucast (relseg_sz k)) * ucast (chunk_sz k))"

text \<open>
  The body of the chunk loop of \<open>memcpy_ssd2gpu_writeback\<close>, lines 1395-1463, for the
  chunk id \<open>cid\<close> read from \<open>chunk_ids_in[i]\<close>. The result is \<open>retval\<close> (not 0: the
  function returns it), the local \<open>dest_offset\<close> and the state.
\<close>

definition writeback_chunk ::
  "kenv \<Rightarrow> mapped_gpu_memory \<Rightarrow> u32 \<Rightarrow> u32 \<Rightarrow> u32 \<Rightarrow> u64 \<Rightarrow> batch_state
     \<Rightarrow> fault + (u32 \<times> u64 \<times> batch_state)"
where
  "writeback_chunk env mg nr_pages threshold cid dest_offset' st =
     (let fpos = chunk_fpos (b_karg st) cid in
      if fpos AND (PAGE_CACHE_SIZE - 1) \<noteq> 0 then Inl AssertFailure
      else if fpos > i_size env then Inr (- ERANGE, dest_offset', st)
      else
        case score_loop (unat nr_pages) 0 (ucast (signed_drop_bit PAGE_CACHE_SHIFT fpos))
               threshold (0, b_dtask st, b_world st) of
          Inl f \<Rightarrow> Inl f
        | Inr (score, d1, w1) \<Rightarrow>
            let st1 = st\<lparr>b_dtask := d1, b_world := w1\<rparr>;
                routed =
                  (if threshold <s score then
                     (let k = b_karg st1;
                          k' = k\<lparr>nr_ram2gpu := nr_ram2gpu k + 1\<rparr>;
                          dest_uaddr = wb_buffer k' +
                             ucast (chunk_sz k' * (nr_chunks k' - nr_ram2gpu k'));
                          st2 = st1\<lparr>b_karg := k',
                                   b_world := w1\<lparr>trace := trace w1 @
                                                [CallWriteback cid fpos dest_uaddr]\<rparr>\<rparr>
                      in case uu_memcpy_ssd2gpu_writeback env nr_pages fpos dest_uaddr st2 of
                           Inl f \<Rightarrow> Inl f
                         | Inr (retval, st3) \<Rightarrow>
                             let ix = unat (nr_chunks (b_karg st3) - nr_ram2gpu (b_karg st3)) in
                             if length (b_out st3) \<le> ix then Inl OutOfBounds
                             else Inr (retval, dest_offset',
                                       st3\<lparr>b_out := (b_out st3)[ix := cid]\<rparr>))
                   else
                     (let st2 = st1\<lparr>b_world := w1\<lparr>trace := trace w1 @
                                                [CallSubmitDma cid fpos dest_offset']\<rparr>\<rparr>
                      in case uu_memcpy_ssd2gpu_submit_dma env mg nr_pages fpos dest_offset' st2 of
                           Inl f \<Rightarrow> Inl f
                         | Inr (retval, st3) \<Rightarrow>
                             let k = b_karg st3; ix = unat (nr_ssd2gpu k) in
                             if length (b_out st3) \<le> ix then Inl OutOfBounds
                             else Inr (retval, dest_offset' + ucast (chunk_sz k),
                                       st3\<lparr>b_out := (b_out st3)[ix := cid],
                                           b_karg := k\<lparr>nr_ssd2gpu := nr_ssd2gpu k + 1\<rparr>\<rparr>)))
            in case routed of
                 Inl f \<Rightarrow> Inl f
               | Inr (retval, dest_offset'', st4) \<Rightarrow>
                   Inr (retval, dest_offset'',
                        if 0 <s score
                        then st4\<lparr>b_world := unlock_pages nr_pages (b_dtask st4) (b_world st4)\<rparr>
                        else st4))"

text \<open>
  The chunk loop, lines 1393-1464, over the chunk ids still to process. A result
  other than 0 is the value the function returns from inside the loop.
\<close>

fun chunk_loop ::
  "kenv \<Rightarrow> mapped_gpu_memory \<Rightarrow> u32 \<Rightarrow> u32 \<Rightarrow> u32 list \<Rightarrow> u64 \<Rightarrow> batch_state
     \<Rightarrow> fault + (u32 \<times> u64 \<times> batch_state)"
where
  "chunk_loop env mg nr_pages threshold [] dest_offset' st = Inr (0, dest_offset', st)"
| "chunk_loop env mg nr_pages threshold (cid # rest) dest_offset' st =
     (case writeback_chunk env mg nr_pages threshold cid dest_offset' st of
        Inl f \<Rightarrow> Inl f
      | Inr (retval, dest_offset'', st') \<Rightarrow>
          if retval \<noteq> 0 then Inr (retval, dest_offset'', st')
          else chunk_loop env mg nr_pages threshold rest dest_offset'' st')"

text \<open>
  \<open>memcpy_ssd2gpu_writeback(karg, dtask, chunk_ids_in, chunk_ids_out)\<close>, lines
  1366-1475. \<open>mg\<close> is the record \<open>dtask->mgmem\<close> points to. The return value of the last
  \<open>submit_ssd2gpu_memcpy\<close> (line 1470) is dropped.
\<close>

definition memcpy_ssd2gpu_writeback ::
  "kenv \<Rightarrow> mapped_gpu_memory \<Rightarrow> u32 list \<Rightarrow> batch_state \<Rightarrow> fault + (u32 \<times> batch_state)"
where
  "memcpy_ssd2gpu_writeback env mg chunk_ids_in st =
     (let k = b_karg st;
          nr_pages = drop_bit PAGE_CACHE_SHIFT (chunk_sz k);
          threshold = nr_pages div 2
      in if chunk_sz k AND 4095 \<noteq> 0 \<or> (ucast (chunk_sz k) :: u64) < PAGE_CACHE_SIZE \<or>
            (ucast (chunk_sz k) :: u64) > STROM_DMA_SSD2GPU_MAXLEN
         then Inr (- EINVAL, st)
         else
           let dest_offset' = map_offset mg + offset k in
           if dest_offset' + ucast (nr_chunks k * chunk_sz k) > map_length mg
           then Inr (- ERANGE, st)
           else if length chunk_ids_in < unat (nr_chunks k) then Inl OutOfBounds
           else
             case chunk_loop env mg nr_pages threshold
                    (take (unat (nr_chunks k)) chunk_ids_in) dest_offset' st of
               Inl f \<Rightarrow> Inl f
             | Inr (retval, _, st') \<Rightarrow>
                 if retval \<noteq> 0 then Inr (retval, st')
                 else
                   let d = b_dtask st'; k' = b_karg st';
                       pending =
                         (if nr_blocks d > 0 then
                            (case submit_ssd2gpu_memcpy env mg d (b_world st') of
                               Inl f \<Rightarrow> Inl f
                             | Inr (_, w') \<Rightarrow>
                                 Inr (st'\<lparr>b_karg := k'\<lparr>nr_dma_submit := nr_dma_submit k' + 1,
                                                        nr_dma_blocks := nr_dma_blocks k' + nr_blocks d\<rparr>,
                                          b_world := w'\<rparr>))
                          else Inr st')
                   in case pending of
                        Inl f \<Rightarrow> Inl f
                      | Inr st'' \<Rightarrow>
                          if nr_ram2gpu (b_karg st'') + nr_ssd2gpu (b_karg st'') \<noteq>
                             nr_chunks (b_karg st'')
                          then Inl AssertFailure
                          else Inr (0, st''))"

text \<open>The requests handed to \<open>nvme_submit_async_read_cmd\<close>, in order.\<close>

fun nvme_submits :: "kcall list \<Rightarrow> (u64 \<times> u32 \<times> u64 \<times> u32) list" where
  "nvme_submits [] = []"
| "nvme_submits (NvmeSubmit src n dst sg rv # cs) = (src, n, dst, rv) # nvme_submits cs"
| "nvme_submits (c # cs) = nvme_submits cs"

text \<open>The chunks sent down the direct path, in order.\<close>

fun direct_ids :: "kcall list \<Rightarrow> u32 list" where
  "direct_ids [] = []"
| "direct_ids (CallSubmitDma cid fpos dst # cs) = cid # direct_ids cs"
| "direct_ids (c # cs) = direct_ids cs"

text \<open>The chunks sent down the write-back path with their user addresses, in order.\<close>

fun writeback_calls :: "kcall list \<Rightarrow> (u32 \<times> u64) list" where
  "writeback_calls [] = []"
| "writeback_calls (CallWriteback cid fpos dst # cs) = (cid, dst) # writeback_calls cs"
| "writeback_calls (c # cs) = writeback_calls cs"

text \<open>
  A cooperative kernel around an ext4 file whose logical block \<open>i\<close> is the physical
  block \<open>b0 + i\<close>: every lookup, allocation, copy and submission succeeds.
\<close>

definition contiguous_env :: "u64 \<Rightarrow> u64 \<Rightarrow> kenv" where
  "contiguous_env fsize b0 =
     \<lparr>i_size = fsize, s_magic = EXT4_SUPER_MAGIC,
      ext4_get_block = (\<lambda>iblock. (0, b0 + iblock)),
      xfs_get_blocks = (\<lambda>iblock. (- ENOTSUPP, 0)),
      read_mapping_page = (\<lambda>index. None),
      fault_in_pages_writeable = (\<lambda>uaddr. 0),
      copy_to_user_inatomic = (\<lambda>uaddr index. 0),
      copy_to_user = (\<lambda>uaddr index. 0),
      kmalloc_iod = (\<lambda>nbytes. True),
      nvme_submit_async_read_cmd = (\<lambda>src n sg. 0)\<rparr>"

text \<open>
  A command as \<open>ioctl_memcpy_ssd2gpu_writeback\<close> hands it over (lines 1512-1516: the
  four counters are 0), for \<open>n\<close> chunks of \<open>sz\<close> bytes to the start of the mapping.
\<close>

definition example_karg :: "u32 \<Rightarrow> u32 \<Rightarrow> StromCmd_MemCpySsdToGpuWriteBack" where
  "example_karg n sz =
     \<lparr>k_dma_task_id = 4096, nr_ram2gpu = 0, nr_ssd2gpu = 0, nr_dma_submit = 0,
      nr_dma_blocks = 0, k_handle = 8192, offset = 0, file_desc = 3, nr_chunks = n,
      chunk_sz = sz, relseg_sz = 0, chunk_ids = 0x7ffe00000000, wb_buffer = 0x7fff00000000\<rparr>"

text \<open>The state at the call, with the page cache \<open>pc\<close> and \<open>chunk_ids_out\<close> zeroed.\<close>

definition example_batch :: "u32 \<Rightarrow> u32 \<Rightarrow> (u64 \<Rightarrow> bool option) \<Rightarrow> batch_state" where
  "example_batch n sz pc =
     \<lparr>b_karg = example_karg n sz, b_dtask = example_dtask, b_out = replicate (unat n) 0,
      b_world = \<lparr>page_cache = pc, locked_pages = [], trace = []\<rparr>\<rparr>"




text \<open>A task with a pending run of 32 blocks from block 1000 to the start of the mapping.\<close>

definition pending_batch :: batch_state where
  "pending_batch =
     (example_batch 5 32768 (\<lambda>index. None))
       \<lparr>b_dtask := example_dtask\<lparr>dest_offset := 0, src_block := 1000, nr_blocks := 32\<rparr>\<rparr>"

text \<open>
  What the chunk loop keeps of a batch between two chunks: the output array, the
  routing counters and the inputs of the command, and the chunks routed so far.
\<close>

definition route_view ::
  "batch_state \<Rightarrow> u32 list \<times> (u32 \<times> u32 \<times> u32 \<times> u32 \<times> u32 \<times> u64) \<times> u32 list \<times> (u32 \<times> u64) list"
where
  "route_view st =
     (b_out st,
      (nr_ram2gpu (b_karg st), nr_ssd2gpu (b_karg st), nr_chunks (b_karg st),
       chunk_sz (b_karg st), relseg_sz (b_karg st), wb_buffer (b_karg st)),
      direct_ids (trace (b_world st)), writeback_calls (trace (b_world st)))"

text \<open>
  The state of the output array with \<open>m\<close> chunks still to process: the direct chunks
  fill the front in order, the write-back chunks fill the back in reverse order, and the
  \<open>j\<close>-th write-back call (counted from 0) went to the user address
  \<open>wb_buffer + chunk_sz * (nr_chunks - (j + 1))\<close>.
\<close>

definition batch_inv :: "nat \<Rightarrow> batch_state \<Rightarrow> bool" where
  "batch_inv m st \<longleftrightarrow>
     (let k = b_karg st; n = unat (nr_chunks k); a = unat (nr_ssd2gpu k); r = unat (nr_ram2gpu k);
          ds = direct_ids (trace (b_world st)); ws = writeback_calls (trace (b_world st))
      in length (b_out st) = n \<and> a + r + m = n \<and>
         length ds = a \<and> length ws = r \<and>
         take a (b_out st) = ds \<and>
         drop (n - r) (b_out st) = rev (map fst ws) \<and>
         map snd ws = map (\<lambda>j. wb_buffer k + ucast (chunk_sz k * (nr_chunks k - of_nat (j + 1))))
                        [0..<r])"

text \<open>
  A page cache that holds the eight pages of chunk 1 (clean) and of chunk 3 (dirty) of
  a file in 32 KiB chunks, and nothing else.
\<close>

definition example_cache :: "u64 \<Rightarrow> bool option" where
  "example_cache index =
     (if 8 \<le> index \<and> index < 16 then Some False
      else if 24 \<le> index \<and> index < 32 then Some True
      else None)"

text \<open>The same kernel, except that the NVMe queue answers every request with \<open>e\<close>.\<close>

definition refusing_env :: "u64 \<Rightarrow> u64 \<Rightarrow> u32 \<Rightarrow> kenv" where
  "refusing_env fsize b0 e =
     (contiguous_env fsize b0)\<lparr>nvme_submit_async_read_cmd := (\<lambda>src n sg. e)\<rparr>"

text \<open>
  A page cache that holds, dirty, the pages \<open>2 ^ 31\<close> to \<open>2 ^ 31 + 31\<close> of the file, the
  128 KiB from 8 TiB into it, and nothing else.
\<close>

definition far_cache :: "u64 \<Rightarrow> bool option" where
  "far_cache index = (if 2147483648 \<le> index \<and> index < 2147483680 then Some True else None)"

text \<open>A page cache that holds every page of the file, clean.\<close>

definition resident_cache :: "u64 \<Rightarrow> bool option" where
  "resident_cache index = Some False"

text \<open>
  A mapping of 8 GiB in 64 KiB pages, and the batch of the 262145 chunks 0, 1, ...,
  262144 of 16 KiB to its start: 4 GiB and one chunk, with the write-back buffer at the
  user address \<open>wb\<close>. The array of the chunk ids and \<open>chunk_ids_out\<close> take 2 MiB.
\<close>

definition large_page_table :: nvidia_p2p_page_table where
  "large_page_table =
     \<lparr>pt_version = 65536, pt_page_size = 1, pt_entries = 131072,
      pt_pages = map (\<lambda>i. 0x7f0000000000 + 65536 * of_nat i) [0..<131072]\<rparr>"

definition large_mgmem :: mapped_gpu_memory where
  "large_mgmem = example_mgmem\<lparr>map_length := 8589934592, page_table := large_page_table\<rparr>"

definition large_ids :: "u32 list" where
  "large_ids = map of_nat [0..<262145]"

definition large_karg :: "u64 \<Rightarrow> StromCmd_MemCpySsdToGpuWriteBack" where
  "large_karg wb = (example_karg 262145 16384)\<lparr>wb_buffer := wb\<rparr>"

definition large_batch :: "u64 \<Rightarrow> batch_state" where
  "large_batch wb =
     \<lparr>b_karg = large_karg wb, b_dtask = example_dtask, b_out = replicate 262145 0,
      b_world = \<lparr>page_cache = resident_cache, locked_pages = [], trace = []\<rparr>\<rparr>"

text \<open>
  The state of that batch when \<open>i\<close> chunks have gone down the write-back path and none
  down the direct path.
\<close>

definition large_inv :: "u64 \<Rightarrow> nat \<Rightarrow> batch_state \<Rightarrow> bool" where
  "large_inv wb i st \<longleftrightarrow>
     b_karg st = (large_karg wb)\<lparr>nr_ram2gpu := of_nat i\<rparr> \<and>
     length (b_out st) = 262145 \<and>
     length (file_pages (b_dtask st)) = 32 \<and>
     nr_blocks (b_dtask st) = 0 \<and>
     page_cache (b_world st) = resident_cache"

text \<open>
  What the write-back path does with chunk \<open>i\<close> of that batch, the \<open>i + 1\<close>-th to go
  down it: the call of \<open>__memcpy_ssd2gpu_writeback\<close> with the destination of line 1424,
  in the \<open>unsigned int\<close> arithmetic of the command's fields, and the copies of its four
  pages.
\<close>

definition large_events :: "u64 \<Rightarrow> nat \<Rightarrow> kcall list" where
  "large_events wb i =
     (let fpos = chunk_fpos (large_karg wb) (of_nat i);
          k = (ucast (signed_drop_bit PAGE_CACHE_SHIFT fpos) :: u32);
          dst = wb + ucast (16384 * (262145 - (of_nat i + 1)) :: u32)
      in [CallWriteback (of_nat i) fpos dst,
          CopyToUser dst (Page (scast k) False),
          CopyToUser (dst + 4096) (Page (scast (k + 1)) False),
          CopyToUser (dst + 8192) (Page (scast (k + 2)) False),
          CopyToUser (dst + 12288) (Page (scast (k + 3)) False)])"

chapter \<open>Properties\<close>


lemmas ex_defs = contiguous_env_def example_batch_def example_karg_def example_dtask_def
  example_mgmem_def example_page_table_def pending_batch_def
  PAGE_CACHE_SHIFT_def PAGE_CACHE_SIZE_def STROM_DMA_SSD2GPU_MAXLEN_def EXT4_SUPER_MAGIC_def
  XFS_SB_MAGIC_def EINVAL_def ERANGE_def ENOTSUPP_def

section \<open>Sticky status of a task\<close>

lemma strom_put_dma_task_status:
  assumes "dtask_heap r p = Some t" "strom_put_dma_task p status r = Inr r'"
    "dtask_heap r' p = Some t'"
  shows "dma_status t' = (if dma_status t \<noteq> 0 then dma_status t else status)"
  using assms
  by (auto simp: strom_put_dma_task_def Let_def split: if_splits)

lemma strom_put_dma_task_freed:
  assumes "dtask_heap r p = None"
  shows "strom_put_dma_task p status r = Inl UseAfterFree"
  using assms by (simp add: strom_put_dma_task_def)

lemma first_failure_sticky:
  "(if s \<noteq> 0 then s else first_failure (x # xs)) =
   (if (if s \<noteq> 0 then s else x) \<noteq> 0 then (if s \<noteq> 0 then s else x) else first_failure xs)"
  by simp

lemma put_all_status:
  "dtask_heap r p = Some t \<Longrightarrow> put_all p sts r = Inr r' \<Longrightarrow> dtask_heap r' p = Some t' \<Longrightarrow>
   dma_status t' = (if dma_status t \<noteq> 0 then dma_status t else first_failure sts)"
proof (induction sts arbitrary: r t)
  case Nil
  then show ?case by simp
next
  case (Cons status rest)
  from Cons.prems(2) obtain r1 where
    step: "strom_put_dma_task p status r = Inr r1" and run: "put_all p rest r1 = Inr r'"
    by (auto split: sum.splits)
  show ?case
  proof (cases "dtask_heap r1 p")
    case None
    show ?thesis
    proof (cases rest)
      case Nil
      with run None Cons.prems(3) show ?thesis by simp
    next
      case (Cons s2 rest2)
      with run None show ?thesis
        by (simp add: strom_put_dma_task_freed)
    qed
  next
    case (Some t1)
    have t1: "dma_status t1 = (if dma_status t \<noteq> 0 then dma_status t else status)"
      by (rule strom_put_dma_task_status [OF Cons.prems(1) step Some])
    have "dma_status t' = (if dma_status t1 \<noteq> 0 then dma_status t1 else first_failure rest)"
      by (rule Cons.IH [OF Some run Cons.prems(3)])
    with t1 show ?thesis by simp
  qed
qed


text \<open>
  Claim C1. For a task whose status is still 0, take any run of \<open>strom_put_dma_task\<close>
  calls: some calls with status 0, then the first call with a non-zero status \<open>first\<close>,
  then any further calls with any statuses. As long as the record exists afterwards,
  its \<open>dma_status\<close> is \<open>first\<close>: the first non-zero status is stored, and no later call
  overwrites it.
\<close>

theorem strom_put_dma_task_sticky:
  assumes "dtask_heap r p = Some t" and "dma_status t = 0"
    and "\<forall>s\<in>set before. s = 0" and "first \<noteq> 0"
    and "put_all p (before @ first # later) r = Inr r'"
    and "dtask_heap r' p = Some t'"
  shows "dma_status t' = first"
proof -
  have "first_failure (before @ first # later) = first"
    using assms(3,4) by (induction before) auto
  with put_all_status [OF assms(1,5,6)] assms(2) show ?thesis by simp
qed

text \<open>
  Three references are dropped with the statuses 0, -5 and -12: the task ends on the
  failed chain with the status -5.
\<close>

theorem strom_put_dma_task_sticky_witness:
  "dtask_heap example_registry 4096 = Some example_dtask \<and> dma_status example_dtask = 0 \<and>
   (\<exists>r' t'. put_all 4096 ([0] @ (- 5) # [- 12]) example_registry = Inr r' \<and>
      dtask_heap r' 4096 = Some t' \<and> dma_status t' = - 5)"
proof -
  have h1: "dtask_heap example_registry 4096 = Some example_dtask"
    by (simp add: example_registry_def)
  have h2: "dma_status example_dtask = 0" by (simp add: example_dtask_def)
  have h3: "\<forall>s\<in>set [0::u64]. s = 0" by simp
  have h4: "(- 5 :: u64) \<noteq> 0" by simp
  obtain r' t' where h5: "put_all 4096 ([0] @ (- 5) # [- 12]) example_registry = Inr r'"
    and h6: "dtask_heap r' 4096 = Some t'"
    by (simp add: strom_put_dma_task_def example_registry_def example_dtask_def Let_def)
  from strom_put_dma_task_sticky [OF h1 h2 h3 h4 h5 h6] h1 h2 h5 h6 show ?thesis by blast
qed

section \<open>A failure record is handed out once\<close>

lemma find_dma_task_Some:
  "find_dma_task heap i slot = Inr (Some (a, t)) \<Longrightarrow> a \<in> set slot \<and> heap a = Some t \<and> dma_task_id t = i"
  by (induction slot) (auto split: option.splits if_splits)

lemma find_dma_task_absent:
  "heap i = None \<Longrightarrow> \<forall>a\<in>set slot. \<exists>t. heap a = Some t \<and> dma_task_id t = a \<Longrightarrow>
   find_dma_task heap i slot = Inr None"
  by (induction slot) (auto split: option.splits)

lemma wait_consume:
  assumes "strom_memcpy_ssd2gpu_wait hash i want sig lck r = Inr (step, r')"
  shows "r' = r \<and> (\<forall>st. step \<noteq> WaitReturn (- EIO) st) \<or>
     (\<exists>a t. a \<in> set (failed_dma_task_slots r (strom_dma_task_index hash i)) \<and>
        dtask_heap r a = Some t \<and> dma_task_id t = i \<and>
        step = WaitReturn (- EIO) (if want then Some (dma_status t) else None) \<and>
        r' = r\<lparr>failed_dma_task_slots :=
                  (failed_dma_task_slots r)(strom_dma_task_index hash i :=
                     remove1 a (failed_dma_task_slots r (strom_dma_task_index hash i))),
                dtask_heap := (dtask_heap r)(a := None),
                reg_events := reg_events r @ [Kfree a]\<rparr>)"
proof (cases "find_dma_task (dtask_heap r) i (failed_dma_task_slots r (strom_dma_task_index hash i))")
  case (Inl f)
  with assms show ?thesis by (simp add: strom_memcpy_ssd2gpu_wait_def Let_def)
next
  case (Inr found)
  show ?thesis
  proof (cases found)
    case None
    with Inr assms have "r' = r \<and> (\<forall>st. step \<noteq> WaitReturn (- EIO) st)"
      by (auto simp: strom_memcpy_ssd2gpu_wait_def Let_def EIO_def EINTR_def
          split: sum.splits if_splits)
    then show ?thesis ..
  next
    case (Some at)
    obtain a t where at: "at = (a, t)" by (cases at)
    from Inr Some at find_dma_task_Some
    have m: "a \<in> set (failed_dma_task_slots r (strom_dma_task_index hash i))"
      "dtask_heap r a = Some t" "dma_task_id t = i" by blast+
    show ?thesis
    proof (cases lck)
      case False
      with Inr Some at assms have "r' = r \<and> (\<forall>st. step \<noteq> WaitReturn (- EIO) st)"
        by (auto simp: strom_memcpy_ssd2gpu_wait_def Let_def)
      then show ?thesis ..
    next
      case True
      with Inr Some at assms have
        "step = WaitReturn (- EIO) (if want then Some (dma_status t) else None) \<and>
         r' = r\<lparr>failed_dma_task_slots :=
                  (failed_dma_task_slots r)(strom_dma_task_index hash i :=
                     remove1 a (failed_dma_task_slots r (strom_dma_task_index hash i))),
                dtask_heap := (dtask_heap r)(a := None),
                reg_events := reg_events r @ [Kfree a]\<rparr>"
        by (auto simp: strom_memcpy_ssd2gpu_wait_def Let_def)
      with m show ?thesis by blast
    qed
  qed
qed

lemma wait_wf:
  assumes "reg_wf r" "strom_memcpy_ssd2gpu_wait hash i want sig lck r = Inr (step, r')"
  shows "reg_wf r'"
proof -
  from wait_consume [OF assms(2)] show ?thesis
  proof
    assume "r' = r \<and> (\<forall>st. step \<noteq> WaitReturn (- EIO) st)"
    with assms(1) show ?thesis by simp
  next
    let ?hx = "strom_dma_task_index hash i"
    assume "\<exists>a t. a \<in> set (failed_dma_task_slots r ?hx) \<and>
        dtask_heap r a = Some t \<and> dma_task_id t = i \<and>
        step = WaitReturn (- EIO) (if want then Some (dma_status t) else None) \<and>
        r' = r\<lparr>failed_dma_task_slots :=
                  (failed_dma_task_slots r)(?hx := remove1 a (failed_dma_task_slots r ?hx)),
                dtask_heap := (dtask_heap r)(a := None),
                reg_events := reg_events r @ [Kfree a]\<rparr>"
    then obtain a t where a: "a \<in> set (failed_dma_task_slots r ?hx)" "dtask_heap r a = Some t"
      and r': "r' = r\<lparr>failed_dma_task_slots :=
                  (failed_dma_task_slots r)(?hx := remove1 a (failed_dma_task_slots r ?hx)),
                dtask_heap := (dtask_heap r)(a := None),
                reg_events := reg_events r @ [Kfree a]\<rparr>" by blast
    from assms(1) have
      w1: "\<And>b d. dtask_heap r b = Some d \<Longrightarrow> dma_task_id d = b" and
      w2: "\<And>k b. b \<in> set (strom_dma_task_slots r k) \<union> set (failed_dma_task_slots r k) \<Longrightarrow>
             \<exists>d. dtask_heap r b = Some d \<and> hindex d = k" and
      w3: "\<And>k. distinct (strom_dma_task_slots r k)" "\<And>k. distinct (failed_dma_task_slots r k)"
          "\<And>k. set (strom_dma_task_slots r k) \<inter> set (failed_dma_task_slots r k) = {}"
      unfolding reg_wf_def by blast+
    from w2 [of a ?hx] a have hx: "hindex t = ?hx" by auto
    have other: "b \<noteq> a" if "b \<in> set (strom_dma_task_slots r k)" for b k
    proof
      assume "b = a"
      with that w2 [of a k] a hx have "k = ?hx" by auto
      with that \<open>b = a\<close> a(1) w3(3) [of ?hx] show False by auto
    qed
    have other2: "b \<noteq> a" if "b \<in> set (failed_dma_task_slots r k)" "k \<noteq> ?hx" for b k
      using that w2 [of b k] a hx by auto
    show ?thesis unfolding reg_wf_def r'
    proof (intro conjI allI impI)
      fix b d assume "dtask_heap (r\<lparr>failed_dma_task_slots :=
                  (failed_dma_task_slots r)(?hx := remove1 a (failed_dma_task_slots r ?hx)),
                dtask_heap := (dtask_heap r)(a := None),
                reg_events := reg_events r @ [Kfree a]\<rparr>) b = Some d"
      then show "dma_task_id d = b" using w1 by (auto split: if_splits)
    next
      fix k b assume "b \<in> set (strom_dma_task_slots (r\<lparr>failed_dma_task_slots :=
                  (failed_dma_task_slots r)(?hx := remove1 a (failed_dma_task_slots r ?hx)),
                dtask_heap := (dtask_heap r)(a := None),
                reg_events := reg_events r @ [Kfree a]\<rparr>) k) \<union> set (failed_dma_task_slots (r\<lparr>failed_dma_task_slots :=
                  (failed_dma_task_slots r)(?hx := remove1 a (failed_dma_task_slots r ?hx)),
                dtask_heap := (dtask_heap r)(a := None),
                reg_events := reg_events r @ [Kfree a]\<rparr>) k)"
      then show "\<exists>d. dtask_heap (r\<lparr>failed_dma_task_slots :=
                  (failed_dma_task_slots r)(?hx := remove1 a (failed_dma_task_slots r ?hx)),
                dtask_heap := (dtask_heap r)(a := None),
                reg_events := reg_events r @ [Kfree a]\<rparr>) b = Some d \<and> hindex d = k"
        using other [of b k] other2 [of b k] w2 [of b k] w3(2) [of ?hx]
        by (auto split: if_splits)
    next
      fix k show "distinct (strom_dma_task_slots (r\<lparr>failed_dma_task_slots :=
                  (failed_dma_task_slots r)(?hx := remove1 a (failed_dma_task_slots r ?hx)),
                dtask_heap := (dtask_heap r)(a := None),
                reg_events := reg_events r @ [Kfree a]\<rparr>) k)" using w3(1) by simp
    next
      fix k show "distinct (failed_dma_task_slots (r\<lparr>failed_dma_task_slots :=
                  (failed_dma_task_slots r)(?hx := remove1 a (failed_dma_task_slots r ?hx)),
                dtask_heap := (dtask_heap r)(a := None),
                reg_events := reg_events r @ [Kfree a]\<rparr>) k)" using w3(2) by simp
    next
      fix k show "set (strom_dma_task_slots (r\<lparr>failed_dma_task_slots :=
                  (failed_dma_task_slots r)(?hx := remove1 a (failed_dma_task_slots r ?hx)),
                dtask_heap := (dtask_heap r)(a := None),
                reg_events := reg_events r @ [Kfree a]\<rparr>) k) \<inter> set (failed_dma_task_slots (r\<lparr>failed_dma_task_slots :=
                  (failed_dma_task_slots r)(?hx := remove1 a (failed_dma_task_slots r ?hx)),
                dtask_heap := (dtask_heap r)(a := None),
                reg_events := reg_events r @ [Kfree a]\<rparr>) k) = {}"
        using w3(3) [of k] w3(2) [of ?hx] by (auto dest: notin_set_remove1)
    qed
  qed
qed

lemma put_cases:
  assumes "strom_put_dma_task p status r = Inr r'"
  shows "\<exists>t0 t2. dtask_heap r p = Some t0 \<and> dma_task_id t2 = dma_task_id t0 \<and>
           hindex t2 = hindex t0 \<and>
           (strom_dma_task_slots r' = strom_dma_task_slots r \<and>
            failed_dma_task_slots r' = failed_dma_task_slots r \<and>
            dtask_heap r' = (dtask_heap r)(p \<mapsto> t2)
          \<or> strom_dma_task_slots r' = (strom_dma_task_slots r)
                (hindex t0 := remove1 p (strom_dma_task_slots r (hindex t0))) \<and>
            failed_dma_task_slots r' = (failed_dma_task_slots r)
                (hindex t0 := remove1 p (failed_dma_task_slots r (hindex t0)) @ [p]) \<and>
            dtask_heap r' = (dtask_heap r)(p \<mapsto> t2)
          \<or> strom_dma_task_slots r' = (strom_dma_task_slots r)
                (hindex t0 := remove1 p (strom_dma_task_slots r (hindex t0))) \<and>
            failed_dma_task_slots r' = (failed_dma_task_slots r)
                (hindex t0 := remove1 p (failed_dma_task_slots r (hindex t0))) \<and>
            dtask_heap r' = (dtask_heap r)(p := None))"
proof (cases "dtask_heap r p")
  case None
  with assms show ?thesis by (simp add: strom_put_dma_task_def)
next
  case (Some t0)
  define t1 where "t1 = (if status \<noteq> 0 \<and> dma_status t0 = 0 then t0\<lparr>dma_status := status\<rparr> else t0)"
  define t2 where "t2 = t1\<lparr>refcnt := refcnt t1 - 1\<rparr>"
  have same: "dma_task_id t2 = dma_task_id t0" "hindex t2 = hindex t0"
    by (simp_all add: t2_def t1_def)
  show ?thesis
  proof (cases "refcnt t2 = 0")
    case False
    with assms Some have "dtask_heap r' = (dtask_heap r)(p \<mapsto> t2)"
      "strom_dma_task_slots r' = strom_dma_task_slots r"
      "failed_dma_task_slots r' = failed_dma_task_slots r"
      by (auto simp: strom_put_dma_task_def Let_def t2_def t1_def split: if_splits)
    with Some same show ?thesis by blast
  next
    case True
    show ?thesis
    proof (cases "dma_status t2 = 0")
      case z: True
      with True assms Some have "dtask_heap r' = (dtask_heap r)(p := None)"
        "strom_dma_task_slots r' = (strom_dma_task_slots r)
                (hindex t0 := remove1 p (strom_dma_task_slots r (hindex t0)))"
        "failed_dma_task_slots r' = (failed_dma_task_slots r)
                (hindex t0 := remove1 p (failed_dma_task_slots r (hindex t0)))"
        by (auto simp: strom_put_dma_task_def Let_def t2_def t1_def split: if_splits)
      with Some same show ?thesis by blast
    next
      case nz: False
      define t3 where "t3 = t2\<lparr>ioctl_filp := None, filp := None, mgmem := None\<rparr>"
      have same3: "dma_task_id t3 = dma_task_id t0" "hindex t3 = hindex t0"
        using same by (simp_all add: t3_def)
      from nz True assms Some have "dtask_heap r' = (dtask_heap r)(p \<mapsto> t3)"
        "strom_dma_task_slots r' = (strom_dma_task_slots r)
                (hindex t0 := remove1 p (strom_dma_task_slots r (hindex t0)))"
        "failed_dma_task_slots r' = (failed_dma_task_slots r)
                (hindex t0 := remove1 p (failed_dma_task_slots r (hindex t0)) @ [p])"
        by (auto simp: strom_put_dma_task_def Let_def t3_def t2_def t1_def split: if_splits)
      with Some same3 show ?thesis by blast
    qed
  qed
qed

lemma reg_wf_I:
  assumes "\<And>b d. dtask_heap r b = Some d \<Longrightarrow> dma_task_id d = b"
    "\<And>k b. b \<in> set (strom_dma_task_slots r k) \<Longrightarrow> \<exists>d. dtask_heap r b = Some d \<and> hindex d = k"
    "\<And>k b. b \<in> set (failed_dma_task_slots r k) \<Longrightarrow> \<exists>d. dtask_heap r b = Some d \<and> hindex d = k"
    "\<And>k. distinct (strom_dma_task_slots r k)" "\<And>k. distinct (failed_dma_task_slots r k)"
    "\<And>k. set (strom_dma_task_slots r k) \<inter> set (failed_dma_task_slots r k) = {}"
  shows "reg_wf r"
  unfolding reg_wf_def using assms by blast

lemma reg_wf_D:
  assumes "reg_wf r"
  shows "\<And>b d. dtask_heap r b = Some d \<Longrightarrow> dma_task_id d = b"
    "\<And>k b. b \<in> set (strom_dma_task_slots r k) \<Longrightarrow> \<exists>d. dtask_heap r b = Some d \<and> hindex d = k"
    "\<And>k b. b \<in> set (failed_dma_task_slots r k) \<Longrightarrow> \<exists>d. dtask_heap r b = Some d \<and> hindex d = k"
    "\<And>k. distinct (strom_dma_task_slots r k)" "\<And>k. distinct (failed_dma_task_slots r k)"
    "\<And>k. set (strom_dma_task_slots r k) \<inter> set (failed_dma_task_slots r k) = {}"
  using assms unfolding reg_wf_def by blast+

lemma put_wf:
  assumes wf: "reg_wf r" and put: "strom_put_dma_task p status r = Inr r'"
  shows "reg_wf r'"
proof -
  note w = reg_wf_D [OF wf]
  from put_cases [OF put] obtain t0 t2 where
    t0: "dtask_heap r p = Some t0" and id: "dma_task_id t2 = dma_task_id t0" and
    hx: "hindex t2 = hindex t0" and
    cs: "strom_dma_task_slots r' = strom_dma_task_slots r \<and>
            failed_dma_task_slots r' = failed_dma_task_slots r \<and>
            dtask_heap r' = (dtask_heap r)(p \<mapsto> t2)
          \<or> strom_dma_task_slots r' = (strom_dma_task_slots r)
                (hindex t0 := remove1 p (strom_dma_task_slots r (hindex t0))) \<and>
            failed_dma_task_slots r' = (failed_dma_task_slots r)
                (hindex t0 := remove1 p (failed_dma_task_slots r (hindex t0)) @ [p]) \<and>
            dtask_heap r' = (dtask_heap r)(p \<mapsto> t2)
          \<or> strom_dma_task_slots r' = (strom_dma_task_slots r)
                (hindex t0 := remove1 p (strom_dma_task_slots r (hindex t0))) \<and>
            failed_dma_task_slots r' = (failed_dma_task_slots r)
                (hindex t0 := remove1 p (failed_dma_task_slots r (hindex t0))) \<and>
            dtask_heap r' = (dtask_heap r)(p := None)" by blast
  from w(1) [OF t0] id have id2: "dma_task_id t2 = p" by simp
  have only_hx: "k = hindex t0"
    if "p \<in> set (strom_dma_task_slots r k) \<or> p \<in> set (failed_dma_task_slots r k)" for k
    using that w(2) [of p k] w(3) [of p k] t0 by auto
  from cs show ?thesis
  proof (elim disjE conjE)
    assume e: "strom_dma_task_slots r' = strom_dma_task_slots r"
      "failed_dma_task_slots r' = failed_dma_task_slots r"
      "dtask_heap r' = (dtask_heap r)(p \<mapsto> t2)"
    show ?thesis
    proof (rule reg_wf_I)
      fix b d assume "dtask_heap r' b = Some d"
      then show "dma_task_id d = b" using e id2 w(1) by (auto split: if_splits)
    next
      fix k b assume "b \<in> set (strom_dma_task_slots r' k)"
      then show "\<exists>d. dtask_heap r' b = Some d \<and> hindex d = k"
        using e w(2) [of b k] t0 hx by auto
    next
      fix k b assume "b \<in> set (failed_dma_task_slots r' k)"
      then show "\<exists>d. dtask_heap r' b = Some d \<and> hindex d = k"
        using e w(3) [of b k] t0 hx by auto
    qed (simp_all add: e w)
  next
    assume e: "strom_dma_task_slots r' = (strom_dma_task_slots r)
                (hindex t0 := remove1 p (strom_dma_task_slots r (hindex t0)))"
      "failed_dma_task_slots r' = (failed_dma_task_slots r)
                (hindex t0 := remove1 p (failed_dma_task_slots r (hindex t0)) @ [p])"
      "dtask_heap r' = (dtask_heap r)(p \<mapsto> t2)"
    show ?thesis
    proof (rule reg_wf_I)
      fix b d assume "dtask_heap r' b = Some d"
      then show "dma_task_id d = b" using e id2 w(1) by (auto split: if_splits)
    next
      fix k b assume "b \<in> set (strom_dma_task_slots r' k)"
      then have "b \<in> set (strom_dma_task_slots r k)"
        using e by (auto simp: set_remove1_eq w(4) w(5) split: if_splits)
      then show "\<exists>d. dtask_heap r' b = Some d \<and> hindex d = k"
        using e w(2) [of b k] t0 hx by auto
    next
      fix k b assume "b \<in> set (failed_dma_task_slots r' k)"
      then have "b \<in> set (failed_dma_task_slots r k) \<or> (b = p \<and> k = hindex t0)"
        using e by (auto simp: set_remove1_eq w(4) w(5) split: if_splits)
      then show "\<exists>d. dtask_heap r' b = Some d \<and> hindex d = k"
        using e w(3) [of b k] t0 hx by auto
    next
      fix k show "distinct (strom_dma_task_slots r' k)" using e w(4) by simp
    next
      fix k show "distinct (failed_dma_task_slots r' k)"
        using e w(5) [of k] by (auto simp: set_remove1_eq)
    next
      fix k show "set (strom_dma_task_slots r' k) \<inter> set (failed_dma_task_slots r' k) = {}"
        using e w(6) [of k] by (auto simp: set_remove1_eq w(4) w(5))
    qed
  next
    assume e: "strom_dma_task_slots r' = (strom_dma_task_slots r)
                (hindex t0 := remove1 p (strom_dma_task_slots r (hindex t0)))"
      "failed_dma_task_slots r' = (failed_dma_task_slots r)
                (hindex t0 := remove1 p (failed_dma_task_slots r (hindex t0)))"
      "dtask_heap r' = (dtask_heap r)(p := None)"
    show ?thesis
    proof (rule reg_wf_I)
      fix b d assume "dtask_heap r' b = Some d"
      then show "dma_task_id d = b" using e w(1) by (auto split: if_splits)
    next
      fix k b assume b: "b \<in> set (strom_dma_task_slots r' k)"
      then have in0: "b \<in> set (strom_dma_task_slots r k)"
        using e by (auto simp: set_remove1_eq w(4) w(5) split: if_splits)
      have "b \<noteq> p"
      proof
        assume "b = p"
        with in0 only_hx have "k = hindex t0" by blast
        with b e \<open>b = p\<close> w(4) [of k] show False by simp
      qed
      then show "\<exists>d. dtask_heap r' b = Some d \<and> hindex d = k"
        using e w(2) [OF in0] by auto
    next
      fix k b assume b: "b \<in> set (failed_dma_task_slots r' k)"
      then have in0: "b \<in> set (failed_dma_task_slots r k)"
        using e by (auto simp: set_remove1_eq w(4) w(5) split: if_splits)
      have "b \<noteq> p"
      proof
        assume "b = p"
        with in0 only_hx have "k = hindex t0" by blast
        with b e \<open>b = p\<close> w(5) [of k] show False by simp
      qed
      then show "\<exists>d. dtask_heap r' b = Some d \<and> hindex d = k"
        using e w(3) [OF in0] by auto
    next
      fix k show "distinct (strom_dma_task_slots r' k)" using e w(4) by simp
    next
      fix k show "distinct (failed_dma_task_slots r' k)" using e w(5) by simp
    next
      fix k show "set (strom_dma_task_slots r' k) \<inter> set (failed_dma_task_slots r' k) = {}"
        using e w(6) [of k] by (auto simp: set_remove1_eq w(4) w(5))
    qed
  qed
qed

lemma put_keeps_freed:
  assumes "dtask_heap r i = None" "strom_put_dma_task p status r = Inr r'"
  shows "dtask_heap r' i = None"
proof -
  from put_cases [OF assms(2)] obtain t0 t2 where "dtask_heap r p = Some t0"
    "dtask_heap r' = (dtask_heap r)(p \<mapsto> t2) \<or> dtask_heap r' = (dtask_heap r)(p := None)"
    by blast
  with assms(1) show ?thesis by auto
qed

lemma wait_keeps_freed:
  assumes "dtask_heap r i = None" "strom_memcpy_ssd2gpu_wait hash j want sig lck r = Inr (step, r')"
  shows "dtask_heap r' i = None"
  using wait_consume [OF assms(2)] assms(1) by auto

lemma wait_freed_id:
  assumes wf: "reg_wf r" and none: "dtask_heap r i = None"
  shows "strom_memcpy_ssd2gpu_wait hash i want sig lck r = Inr (WaitReturn 0 None, r)"
proof -
  note w = reg_wf_D [OF wf]
  have "find_dma_task (dtask_heap r) i (failed_dma_task_slots r k) = Inr None" for k
  proof (rule find_dma_task_absent [of "dtask_heap r" i])
    show "\<forall>a\<in>set (failed_dma_task_slots r k). \<exists>t. dtask_heap r a = Some t \<and> dma_task_id t = a"
      using w(1) w(3) by blast
  qed (rule none)
  moreover have "find_dma_task (dtask_heap r) i (strom_dma_task_slots r k) = Inr None" for k
  proof (rule find_dma_task_absent [of "dtask_heap r" i])
    show "\<forall>a\<in>set (strom_dma_task_slots r k). \<exists>t. dtask_heap r a = Some t \<and> dma_task_id t = a"
      using w(1) w(2) by blast
  qed (rule none)
  ultimately show ?thesis by (simp add: strom_memcpy_ssd2gpu_wait_def)
qed

lemma wait_consumed_freed:
  assumes wf: "reg_wf r"
    and c: "strom_memcpy_ssd2gpu_wait hash i want sig lck r = Inr (WaitReturn (- EIO) st, r')"
  shows "dtask_heap r' i = None"
proof -
  from wait_consume [OF c] obtain a t where "dtask_heap r a = Some t" "dma_task_id t = i"
    "dtask_heap r' = (dtask_heap r)(a := None)" by auto
  with reg_wf_D(1) [OF wf, of a t] show ?thesis by simp
qed

lemma reg_run_freed:
  "reg_wf r \<Longrightarrow> dtask_heap r i = None \<Longrightarrow> reg_run hash ops r = Inr (outs, r') \<Longrightarrow>
   (j, step) \<in> set outs \<Longrightarrow> j = i \<Longrightarrow> step = WaitReturn 0 None"
proof (induction hash ops r arbitrary: outs rule: reg_run.induct)
  case (1 hash r)
  then show ?case by simp
next
  case (2 hash p status ops r)
  from "2.prems"(3) obtain r1 where s: "strom_put_dma_task p status r = Inr r1"
    and run: "reg_run hash ops r1 = Inr (outs, r')" by (auto split: sum.splits)
  show ?case
    by (rule "2.IH" [OF s put_wf [OF "2.prems"(1) s] put_keeps_freed [OF "2.prems"(2) s] run
          "2.prems"(4,5)])
next
  case (3 hash k want sig lck ops r)
  from "3.prems"(3) obtain st r1 outs1 where
    s: "strom_memcpy_ssd2gpu_wait hash k want sig lck r = Inr (st, r1)" and
    run: "reg_run hash ops r1 = Inr (outs1, r')" and outs: "outs = (k, st) # outs1"
    by (auto split: sum.splits prod.splits)
  from "3.prems"(4) outs have "(j, step) = (k, st) \<or> (j, step) \<in> set outs1" by auto
  then show ?case
  proof
    assume "(j, step) = (k, st)"
    with "3.prems"(5) s wait_freed_id [OF "3.prems"(1,2), of hash want sig lck]
    show ?thesis by simp
  next
    assume m: "(j, step) \<in> set outs1"
    have "(st, r1) = (st, r1)" ..
    show ?thesis
      by (rule "3.IH" [OF s refl wait_wf [OF "3.prems"(1) s]
            wait_keeps_freed [OF "3.prems"(2) s] run m "3.prems"(5)])
  qed
qed

lemma reg_run_consume_once:
  "reg_wf r \<Longrightarrow> reg_run hash ops r = Inr (outs, r') \<Longrightarrow> m < n \<Longrightarrow> n < length outs \<Longrightarrow>
   outs ! m = (i, WaitReturn (- EIO) st) \<Longrightarrow> fst (outs ! n) = i \<Longrightarrow>
   snd (outs ! n) = WaitReturn 0 None"
proof (induction hash ops r arbitrary: outs m n rule: reg_run.induct)
  case (1 hash r)
  then show ?case by simp
next
  case (2 hash p status ops r)
  from "2.prems"(2) obtain r1 where s: "strom_put_dma_task p status r = Inr r1"
    and run: "reg_run hash ops r1 = Inr (outs, r')" by (auto split: sum.splits)
  show ?case
    by (rule "2.IH" [OF s put_wf [OF "2.prems"(1) s] run "2.prems"(3-6)])
next
  case (3 hash k want sig lck ops r)
  from "3.prems"(2) obtain s1 r1 outs1 where
    s: "strom_memcpy_ssd2gpu_wait hash k want sig lck r = Inr (s1, r1)" and
    run: "reg_run hash ops r1 = Inr (outs1, r')" and outs: "outs = (k, s1) # outs1"
    by (auto split: sum.splits prod.splits)
  from "3.prems"(3) obtain n' where n: "n = Suc n'" by (cases n) auto
  with "3.prems"(4) outs have n'len: "n' < length outs1" by simp
  from n outs "3.prems"(6) have nth: "fst (outs1 ! n') = i" by simp
  show ?case
  proof (cases m)
    case 0
    with "3.prems"(5) outs have k: "k = i" "s1 = WaitReturn (- EIO) st" by simp_all
    from wait_consumed_freed [OF "3.prems"(1) s [unfolded k]] have fr: "dtask_heap r1 i = None" .
    have "(fst (outs1 ! n'), snd (outs1 ! n')) \<in> set outs1"
      using n'len by (simp add: nth_mem)
    from reg_run_freed [OF wait_wf [OF "3.prems"(1) s] fr run this nth]
    show ?thesis using n outs by simp
  next
    case (Suc m')
    with "3.prems"(5) outs have mth: "outs1 ! m' = (i, WaitReturn (- EIO) st)" by simp
    from Suc n "3.prems"(3) have lt: "m' < n'" by simp
    have "snd (outs1 ! n') = WaitReturn 0 None"
      by (rule "3.IH" [OF s refl wait_wf [OF "3.prems"(1) s] run lt n'len mth nth])
    then show ?thesis using n outs by simp
  qed
qed

lemma example_registry_wf: "reg_wf example_registry"
  by (auto simp: reg_wf_def example_registry_def example_dtask_def split: if_splits)


lemma reg_run_keeps_freed:
  "dtask_heap r i = None \<Longrightarrow> reg_run hash ops r = Inr (outs, r') \<Longrightarrow> dtask_heap r' i = None"
proof (induction hash ops r arbitrary: outs rule: reg_run.induct)
  case (1 hash r)
  then show ?case by simp
next
  case (2 hash p status ops r)
  from "2.prems"(2) obtain r1 where s: "strom_put_dma_task p status r = Inr r1"
    and run: "reg_run hash ops r1 = Inr (outs, r')" by (auto split: sum.splits)
  show ?case by (rule "2.IH" [OF s put_keeps_freed [OF "2.prems"(1) s] run])
next
  case (3 hash k want sig lck ops r)
  from "3.prems"(2) obtain s1 r1 outs1 where
    s: "strom_memcpy_ssd2gpu_wait hash k want sig lck r = Inr (s1, r1)" and
    run: "reg_run hash ops r1 = Inr (outs1, r')"
    by (auto split: sum.splits prod.splits)
  show ?case by (rule "3.IH" [OF s refl wait_keeps_freed [OF "3.prems"(1) s] run])
qed

lemma reg_run_consumed_freed:
  "reg_wf r \<Longrightarrow> reg_run hash ops r = Inr (outs, r') \<Longrightarrow> m < length outs \<Longrightarrow>
   outs ! m = (i, WaitReturn (- EIO) st) \<Longrightarrow> dtask_heap r' i = None"
proof (induction hash ops r arbitrary: outs m rule: reg_run.induct)
  case (1 hash r)
  then show ?case by simp
next
  case (2 hash p status ops r)
  from "2.prems"(2) obtain r1 where s: "strom_put_dma_task p status r = Inr r1"
    and run: "reg_run hash ops r1 = Inr (outs, r')" by (auto split: sum.splits)
  show ?case by (rule "2.IH" [OF s put_wf [OF "2.prems"(1) s] run "2.prems"(3,4)])
next
  case (3 hash k want sig lck ops r)
  from "3.prems"(2) obtain s1 r1 outs1 where
    s: "strom_memcpy_ssd2gpu_wait hash k want sig lck r = Inr (s1, r1)" and
    run: "reg_run hash ops r1 = Inr (outs1, r')" and outs: "outs = (k, s1) # outs1"
    by (auto split: sum.splits prod.splits)
  show ?case
  proof (cases m)
    case 0
    with "3.prems"(4) outs have k: "k = i" "s1 = WaitReturn (- EIO) st" by simp_all
    from wait_consumed_freed [OF "3.prems"(1) s [unfolded k]] have "dtask_heap r1 i = None" .
    then show ?thesis using run by (rule reg_run_keeps_freed)
  next
    case (Suc m')
    with "3.prems"(3,4) outs have "m' < length outs1" "outs1 ! m' = (i, WaitReturn (- EIO) st)"
      by simp_all
    then show ?thesis
      by (rule "3.IH" [OF s refl wait_wf [OF "3.prems"(1) s] run])
  qed
qed

text \<open>
  Claim C2. In any schedule of \<open>strom_put_dma_task\<close> calls and passes of waiting threads
  over well-formed task tables: once a pass for the task id \<open>i\<close> has returned \<open>-EIO\<close>
  (it read the status and freed the failure record), the record is gone for good, and
  every later pass for \<open>i\<close>, of any thread, finds the id on neither chain and returns 0
  at once. So no two passes return the same failure record. (A pass that finds the id on
  the live chain sleeps, or returns \<open>-EINTR\<close> when a signal is pending; with the record
  freed and no address handed out again, that no longer happens for \<open>i\<close>.)
\<close>

theorem wait_consumes_failure_once:
  assumes "reg_wf r" and "reg_run hash ops r = Inr (outs, r')"
    and "m < length outs" and "outs ! m = (i, WaitReturn (- EIO) st)"
  shows "dtask_heap r' i = None \<and>
    (\<forall>n. m < n \<and> n < length outs \<and> fst (outs ! n) = i \<longrightarrow> snd (outs ! n) = WaitReturn 0 None)"
  using reg_run_consumed_freed [OF assms] reg_run_consume_once [OF assms(1,2) _ _ assms(4)]
  by blast

text \<open>
  One thread sleeps on the live task; the task fails with the status -5 and loses its
  last reference; a first pass without the lock sees the failure record and retries with
  the lock, takes the record, and two further passes return 0.
\<close>

theorem wait_consumes_failure_once_witness:
  "reg_wf example_registry \<and>
   (\<exists>outs r'. reg_run (\<lambda>i. 7)
        [OpWait 4096 True False False, OpPut 4096 0, OpPut 4096 (- 5), OpPut 4096 0,
         OpWait 4096 True False False, OpWait 4096 True False True,
         OpWait 4096 True False True, OpWait 4096 True False False] example_registry
      = Inr (outs, r') \<and>
      outs = [(4096, WaitSleep), (4096, WaitRetry), (4096, WaitReturn (- EIO) (Some (- 5))),
              (4096, WaitReturn 0 None), (4096, WaitReturn 0 None)] \<and>
      dtask_heap r' 4096 = None \<and> snd (outs ! 3) = WaitReturn 0 None)"
proof -
  define outs :: "(u64 \<times> wait_step) list" where
    "outs = [(4096, WaitSleep), (4096, WaitRetry), (4096, WaitReturn (- EIO) (Some (- 5))),
              (4096, WaitReturn 0 None), (4096, WaitReturn 0 None)]"
  have wf: "reg_wf example_registry" by (rule example_registry_wf)
  obtain r' where run: "reg_run (\<lambda>i. 7)
        [OpWait 4096 True False False, OpPut 4096 0, OpPut 4096 (- 5), OpPut 4096 0,
         OpWait 4096 True False False, OpWait 4096 True False True,
         OpWait 4096 True False True, OpWait 4096 True False False] example_registry
      = Inr (outs, r')"
    by (simp add: outs_def strom_put_dma_task_def strom_memcpy_ssd2gpu_wait_def
        strom_dma_task_index_def STROM_DMA_TASK_NSLOTS_def example_registry_def
        example_dtask_def Let_def EIO_def)
  have m: "2 < length outs" "outs ! 2 = (4096, WaitReturn (- EIO) (Some (- 5)))"
    by (simp_all add: outs_def)
  from wait_consumes_failure_once [OF wf run m]
  have "dtask_heap r' 4096 = None" "snd (outs ! 3) = WaitReturn 0 None"
    by (simp_all add: outs_def)
  with wf run show ?thesis unfolding outs_def by blast
qed

section \<open>References of a mapping and its revocation\<close>

text \<open>The arithmetic of the \<open>int\<close> count where it does not wrap.\<close>

lemma refcnt_incr:
  fixes c :: "32 word"
  assumes "0 \<le>s c" "sint c < 2147483647"
  shows "0 \<le>s c + 1 \<and> sint (c + 1) = sint c + 1"
proof -
  from assms have b: "0 \<le> sint c" by (simp add: word_sle_eq)
  have "sint (c + 1) = signed_take_bit 31 (sint c + 1)"
    by (simp add: sint_word_ariths)
  also from b assms(2) have "\<dots> = sint c + 1"
    by (simp add: signed_take_bit_int_eq_self)
  finally have e: "sint (c + 1) = sint c + 1" .
  with b show ?thesis by (simp add: word_sle_eq)
qed

lemma refcnt_decr:
  fixes c :: "32 word"
  assumes "0 <s c"
  shows "0 \<le>s c - 1 \<and> sint (c - 1) = sint c - 1"
proof -
  from assms have b: "0 < sint c" by (simp add: word_sless_alt)
  have ub: "sint c < 2 ^ 31" using sint_lt [of c] by simp
  have "sint (c - 1) = signed_take_bit 31 (sint c - 1)"
    by (simp add: sint_word_ariths)
  also from b ub have "\<dots> = sint c - 1"
    by (simp add: signed_take_bit_int_eq_self)
  finally have e: "sint (c - 1) = sint c - 1" .
  with b show ?thesis by (simp add: word_sle_eq)
qed

lemma refcnt_zero:
  fixes c :: "32 word"
  assumes "0 \<le>s c" "\<not> 0 <s c"
  shows "c = 0"
proof -
  from assms have "sint c = 0" by (simp add: word_sle_eq word_sless_alt)
  then have "(word_of_int (sint c) :: 32 word) = 0" by simp
  then show ?thesis by simp
qed

lemma mg_registered_inv: "mg_registered hash h y \<Longrightarrow> mg_inv hash h y"
  by (auto simp: mg_registered_def mg_inv_def)

lemma find_mgmem_Some:
  "find_mgmem heap h euid slot = Inr (Some (a, mg)) \<Longrightarrow>
   a \<in> set slot \<and> heap a = Some mg \<and> handle mg = h \<and> owner mg = euid"
  by (induction slot) (auto split: option.splits if_splits)

lemma get_cases:
  assumes "strom_get_mapped_gpu_memory hash h euid s = Inr (res, s')"
  shows "s' = s \<or>
    (\<exists>mg. h \<in> set (strom_mgmem_slots s (strom_mapped_gpu_memory_index hash h)) \<and>
       mgmem_heap s h = Some mg \<and>
       s' = s\<lparr>mgmem_heap := (mgmem_heap s)(h \<mapsto> mg\<lparr>mg_refcnt := mg_refcnt mg + 1\<rparr>)\<rparr>)"
proof (cases "find_mgmem (mgmem_heap s) h euid (strom_mgmem_slots s (strom_mapped_gpu_memory_index hash h))")
  case (Inl f)
  with assms show ?thesis by (simp add: strom_get_mapped_gpu_memory_def Let_def)
next
  case (Inr found)
  show ?thesis
  proof (cases found)
    case None
    with Inr assms show ?thesis by (simp add: strom_get_mapped_gpu_memory_def Let_def)
  next
    case (Some am)
    obtain a mg where am: "am = (a, mg)" by (cases am)
    from Inr Some am find_mgmem_Some have
      m: "a \<in> set (strom_mgmem_slots s (strom_mapped_gpu_memory_index hash h))"
      "mgmem_heap s a = Some mg" by blast+
    from Inr Some am assms have "a = h"
      "s' = s\<lparr>mgmem_heap := (mgmem_heap s)(a \<mapsto> mg\<lparr>mg_refcnt := mg_refcnt mg + 1\<rparr>)\<rparr>"
      by (auto simp: strom_get_mapped_gpu_memory_def Let_def split: if_splits)
    with m show ?thesis by blast
  qed
qed

lemma put_mg_cases:
  assumes "strom_put_mapped_gpu_memory h s = Inr s'"
  shows "\<exists>mg mg'. mgmem_heap s h = Some mg \<and> 0 <s mg_refcnt mg \<and>
     mg_refcnt mg' = mg_refcnt mg - 1 \<and> mg_hindex mg' = mg_hindex mg \<and> handle mg' = handle mg \<and>
     strom_mgmem_slots s' = strom_mgmem_slots s \<and> mgmem_heap s' = (mgmem_heap s)(h \<mapsto> mg')"
proof (cases "mgmem_heap s h")
  case None
  with assms show ?thesis by (simp add: strom_put_mapped_gpu_memory_def)
next
  case (Some mg)
  with assms have pos: "0 <s mg_refcnt mg"
    by (auto simp: strom_put_mapped_gpu_memory_def split: if_splits)
  show ?thesis
  proof (cases "mg_refcnt mg - 1 = 0")
    case True
    with Some pos assms have
      "strom_mgmem_slots s' = strom_mgmem_slots s \<and>
       mgmem_heap s' = (mgmem_heap s)(h \<mapsto> mg\<lparr>mg_refcnt := mg_refcnt mg - 1, wait_task := None\<rparr>)"
      by (auto simp: strom_put_mapped_gpu_memory_def)
    with Some pos show ?thesis
      by (intro exI [of _ mg] exI [of _ "mg\<lparr>mg_refcnt := mg_refcnt mg - 1, wait_task := None\<rparr>"]) simp
  next
    case False
    with Some pos assms have
      "strom_mgmem_slots s' = strom_mgmem_slots s \<and>
       mgmem_heap s' = (mgmem_heap s)(h \<mapsto> mg\<lparr>mg_refcnt := mg_refcnt mg - 1\<rparr>)"
      by (auto simp: strom_put_mapped_gpu_memory_def)
    with Some pos show ?thesis
      by (intro exI [of _ mg] exI [of _ "mg\<lparr>mg_refcnt := mg_refcnt mg - 1\<rparr>"]) simp
  qed
qed

lemma unmap_cases:
  assumes "ioctl_unmap_gpu_memory hash pp h euid s = Inr (rv, s')"
  shows "mgmem_heap s' = mgmem_heap s \<and>
    (\<forall>i. set (strom_mgmem_slots s' i) \<subseteq> set (strom_mgmem_slots s i)) \<and>
    (\<forall>i. distinct (strom_mgmem_slots s i) \<longrightarrow> distinct (strom_mgmem_slots s' i))"
proof (cases "find_mgmem (mgmem_heap s) h euid (strom_mgmem_slots s (strom_mapped_gpu_memory_index hash h))")
  case (Inl f)
  with assms show ?thesis by (simp add: ioctl_unmap_gpu_memory_def Let_def)
next
  case (Inr found)
  show ?thesis
  proof (cases found)
    case None
    with Inr assms have "s' = s" by (simp add: ioctl_unmap_gpu_memory_def Let_def)
    then show ?thesis by simp
  next
    case (Some am)
    obtain a mg where am: "am = (a, mg)" by (cases am)
    with Inr Some assms have "mgmem_heap s' = mgmem_heap s"
      "strom_mgmem_slots s' = (strom_mgmem_slots s)(strom_mapped_gpu_memory_index hash h :=
        remove1 a (strom_mgmem_slots s (strom_mapped_gpu_memory_index hash h)))"
      by (auto simp: ioctl_unmap_gpu_memory_def Let_def)
    then show ?thesis by (auto split: if_splits dest: set_remove1_subset [THEN subsetD])
  qed
qed

lemma enter_cases:
  assumes "callback_release_enter h cur s = Inr (pc, s')"
  shows "\<exists>mg mg'. mgmem_heap s h = Some mg \<and> mg_refcnt mg' = mg_refcnt mg \<and>
     mg_hindex mg' = mg_hindex mg \<and> handle mg' = handle mg \<and>
     mgmem_heap s' = (mgmem_heap s)(h \<mapsto> mg') \<and>
     strom_mgmem_slots s' = (strom_mgmem_slots s)(mg_hindex mg :=
        remove1 h (strom_mgmem_slots s (mg_hindex mg))) \<and>
     (if 0 <s mg_refcnt mg then pc = CbSleeping (wait_task mg) else pc = CbUnlocked)"
proof (cases "mgmem_heap s h")
  case None
  with assms show ?thesis by (simp add: callback_release_enter_def)
next
  case (Some mg)
  have rm: "(if h \<in> set (strom_mgmem_slots s (mg_hindex mg))
             then (strom_mgmem_slots s)(mg_hindex mg := remove1 h (strom_mgmem_slots s (mg_hindex mg)))
             else strom_mgmem_slots s) =
            (strom_mgmem_slots s)(mg_hindex mg := remove1 h (strom_mgmem_slots s (mg_hindex mg)))"
    by (auto simp: remove1_idem)
  show ?thesis
  proof (cases "0 <s mg_refcnt mg")
    case True
    with Some assms rm have "pc = CbSleeping (wait_task mg)"
      "mgmem_heap s' = (mgmem_heap s)(h \<mapsto> mg\<lparr>wait_task := Some cur\<rparr>)"
      "strom_mgmem_slots s' = (strom_mgmem_slots s)(mg_hindex mg :=
        remove1 h (strom_mgmem_slots s (mg_hindex mg)))"
      by (auto simp: callback_release_enter_def Let_def split: if_splits)
    with Some True show ?thesis
      by (intro exI [of _ mg] exI [of _ "mg\<lparr>wait_task := Some cur\<rparr>"]) simp
  next
    case False
    with Some assms rm have "pc = CbUnlocked"
      "mgmem_heap s' = mgmem_heap s"
      "strom_mgmem_slots s' = (strom_mgmem_slots s)(mg_hindex mg :=
        remove1 h (strom_mgmem_slots s (mg_hindex mg)))"
      by (auto simp: callback_release_enter_def Let_def split: if_splits)
    with Some False show ?thesis
      by (intro exI [of _ mg] exI [of _ mg]) auto
  qed
qed

lemma wake_cases:
  assumes "callback_release_wake h saved s = Inr (pc, s')"
  shows "pc = CbUnlocked \<and> mgmem_heap s' = mgmem_heap s \<and> strom_mgmem_slots s' = strom_mgmem_slots s \<and>
    (\<exists>mg. mgmem_heap s h = Some mg \<and> mg_refcnt mg = 0)"
  using assms by (auto simp: callback_release_wake_def split: option.splits if_splits)

lemma free_cases:
  assumes "callback_release_free h s = Inr (pc, s')"
  shows "pc = CbReturned \<and> mgmem_heap s' = (mgmem_heap s)(h := None) \<and>
    strom_mgmem_slots s' = strom_mgmem_slots s"
  using assms by (auto simp: callback_release_free_def split: option.splits)

lemma mg_step_inv:
  assumes inv: "mg_inv hash h y" and st: "mg_step hash pp h op' y = Inr y'"
    and acq: "\<And>euid mg. op' = Acquire euid \<Longrightarrow> mgmem_heap (registry y) h = Some mg \<Longrightarrow>
                sint (mg_refcnt mg) < INT_MAX"
  shows "mg_inv hash h y'"
proof -
  let ?ix = "strom_mapped_gpu_memory_index hash h"
  from inv have
    i1: "\<And>a mg. mgmem_heap (registry y) a = Some mg \<Longrightarrow> handle mg = a" and
    i2: "\<And>mg. mgmem_heap (registry y) h = Some mg \<Longrightarrow> 0 \<le>s mg_refcnt mg \<and> mg_hindex mg = ?ix" and
    i3: "\<And>i. h \<in> set (strom_mgmem_slots (registry y) i) \<Longrightarrow> i = ?ix" and
    i4: "distinct (strom_mgmem_slots (registry y) ?ix)" and
    i5: "cb y \<noteq> CbIdle \<Longrightarrow> h \<notin> set (strom_mgmem_slots (registry y) ?ix)" and
    i6: "cb y = CbUnlocked \<Longrightarrow> \<exists>mg. mgmem_heap (registry y) h = Some mg \<and> mg_refcnt mg = 0"
    unfolding mg_inv_def by blast+
  show ?thesis
  proof (cases op')
    case (Acquire euid)
    with st obtain res s' where g: "strom_get_mapped_gpu_memory hash h euid (registry y) = Inr (res, s')"
      and y': "y' = y\<lparr>registry := s'\<rparr>"
      by (auto simp: mg_step_def split: sum.splits prod.splits)
    from get_cases [OF g] show ?thesis
    proof
      assume "s' = registry y"
      with y' inv show ?thesis by simp
    next
      assume "\<exists>mg. h \<in> set (strom_mgmem_slots (registry y) ?ix) \<and>
        mgmem_heap (registry y) h = Some mg \<and>
        s' = (registry y)\<lparr>mgmem_heap := (mgmem_heap (registry y))(h \<mapsto> mg\<lparr>mg_refcnt := mg_refcnt mg + 1\<rparr>)\<rparr>"
      then obtain mg where m: "h \<in> set (strom_mgmem_slots (registry y) ?ix)"
        "mgmem_heap (registry y) h = Some mg"
        "s' = (registry y)\<lparr>mgmem_heap := (mgmem_heap (registry y))(h \<mapsto> mg\<lparr>mg_refcnt := mg_refcnt mg + 1\<rparr>)\<rparr>"
        by blast
      from m(1) i5 have idle: "cb y = CbIdle" by blast
      from i2 [OF m(2)] acq [OF Acquire m(2)] have nn: "0 \<le>s mg_refcnt mg + 1"
        using refcnt_incr [of "mg_refcnt mg"] by (simp add: INT_MAX_def)
      show ?thesis unfolding mg_inv_def y' m(3)
        using i1 i2 [OF m(2)] i3 i4 idle m(2) nn by (auto split: if_splits)
    qed
  next
    case Release
    with st obtain s' where p: "strom_put_mapped_gpu_memory h (registry y) = Inr s'"
      and y': "y' = y\<lparr>registry := s'\<rparr>"
      by (auto simp: mg_step_def split: sum.splits)
    from put_mg_cases [OF p] obtain mg mg' where m: "mgmem_heap (registry y) h = Some mg"
      "0 <s mg_refcnt mg" "mg_refcnt mg' = mg_refcnt mg - 1" "mg_hindex mg' = mg_hindex mg"
      "handle mg' = handle mg" "strom_mgmem_slots s' = strom_mgmem_slots (registry y)"
      "mgmem_heap s' = (mgmem_heap (registry y))(h \<mapsto> mg')" by blast
    from i6 m(1,2) have nu: "cb y \<noteq> CbUnlocked" by (auto simp: word_sless_alt)
    from refcnt_decr [OF m(2)] m(3) have nn: "0 \<le>s mg_refcnt mg'" by simp
    show ?thesis unfolding mg_inv_def y'
      using i1 i2 [OF m(1)] i3 i4 i5 nu nn m(1,4-7) by (auto split: if_splits)
  next
    case (Unmap euid)
    with st obtain rv s' where u: "ioctl_unmap_gpu_memory hash pp h euid (registry y) = Inr (rv, s')"
      and y': "y' = y\<lparr>registry := s'\<rparr>"
      by (auto simp: mg_step_def split: sum.splits prod.splits)
    from unmap_cases [OF u] have m: "mgmem_heap s' = mgmem_heap (registry y)"
      "\<And>i. set (strom_mgmem_slots s' i) \<subseteq> set (strom_mgmem_slots (registry y) i)"
      "\<And>i. distinct (strom_mgmem_slots (registry y) i) \<Longrightarrow> distinct (strom_mgmem_slots s' i)"
      by blast+
    show ?thesis unfolding mg_inv_def y'
      using i1 i2 i3 i4 i5 i6 m(1) m(2) m(3) [OF i4] by (auto simp: subset_iff)
  next
    case (RevokeEnter cur)
    show ?thesis
    proof (cases "cb y = CbIdle")
      case False
      with st RevokeEnter have "y' = y" by (auto simp: mg_step_def split: cb_pc.splits)
      with inv show ?thesis by simp
    next
      case True
      with st RevokeEnter obtain pc s' where e: "callback_release_enter h cur (registry y) = Inr (pc, s')"
        and y': "y' = \<lparr>registry = s', cb = pc\<rparr>"
        by (auto simp: mg_step_def split: sum.splits prod.splits)
      from enter_cases [OF e] obtain mg mg' where m: "mgmem_heap (registry y) h = Some mg"
        "mg_refcnt mg' = mg_refcnt mg" "mg_hindex mg' = mg_hindex mg" "handle mg' = handle mg"
        "mgmem_heap s' = (mgmem_heap (registry y))(h \<mapsto> mg')"
        "strom_mgmem_slots s' = (strom_mgmem_slots (registry y))(mg_hindex mg :=
            remove1 h (strom_mgmem_slots (registry y) (mg_hindex mg)))"
        "if 0 <s mg_refcnt mg then pc = CbSleeping (wait_task mg) else pc = CbUnlocked" by blast
      from i2 [OF m(1)] have hx: "mg_hindex mg = ?ix" and nn: "0 \<le>s mg_refcnt mg" by simp_all
      have z: "pc = CbUnlocked \<Longrightarrow> mg_refcnt mg = 0"
        using m(7) refcnt_zero [OF nn] by (auto split: if_splits)
      show ?thesis unfolding mg_inv_def y'
        using i1 i3 i4 m(1-6) hx nn z
        by (auto simp: set_remove1_eq split: if_splits)
    qed
  next
    case RevokeWake
    show ?thesis
    proof (cases "cb y")
      case (CbSleeping saved)
      with st RevokeWake obtain pc s' where e: "callback_release_wake h saved (registry y) = Inr (pc, s')"
        and y': "y' = \<lparr>registry = s', cb = pc\<rparr>"
        by (auto simp: mg_step_def split: sum.splits prod.splits)
      from wake_cases [OF e] have m: "pc = CbUnlocked" "mgmem_heap s' = mgmem_heap (registry y)"
        "strom_mgmem_slots s' = strom_mgmem_slots (registry y)"
        "\<exists>mg. mgmem_heap (registry y) h = Some mg \<and> mg_refcnt mg = 0" by blast+
      show ?thesis unfolding mg_inv_def y'
        using i1 i2 i3 i4 i5 m CbSleeping by auto
    qed (use st RevokeWake inv in \<open>auto simp: mg_step_def\<close>)
  next
    case RevokeFree
    show ?thesis
    proof (cases "cb y")
      case CbUnlocked
      with st RevokeFree obtain pc s' where e: "callback_release_free h (registry y) = Inr (pc, s')"
        and y': "y' = \<lparr>registry = s', cb = pc\<rparr>"
        by (auto simp: mg_step_def split: sum.splits prod.splits)
      from free_cases [OF e] have m: "pc = CbReturned"
        "mgmem_heap s' = (mgmem_heap (registry y))(h := None)"
        "strom_mgmem_slots s' = strom_mgmem_slots (registry y)" by blast+
      show ?thesis unfolding mg_inv_def y'
        using i1 i3 i4 i5 m CbUnlocked by (auto split: if_splits)
    qed (use st RevokeFree inv in \<open>auto simp: mg_step_def\<close>)
  qed
qed

lemma mg_run_append:
  "mg_run hash pp h (ops1 @ ops2) y = Inr y' \<Longrightarrow>
   \<exists>y1. mg_run hash pp h ops1 y = Inr y1 \<and> mg_run hash pp h ops2 y1 = Inr y'"
  by (induction ops1 arbitrary: y) (auto split: sum.splits)

lemma mg_step_frees:
  assumes inv: "mg_inv hash h y" and st: "mg_step hash pp h op' y = Inr y'"
    and fr: "mgmem_heap (registry y') h = None \<and> mgmem_heap (registry y) h \<noteq> None \<or>
             FreePageTable h \<in> set (mg_events (registry y')) \<and>
             FreePageTable h \<notin> set (mg_events (registry y))"
  shows "op' = RevokeFree \<and> (\<exists>mg. mgmem_heap (registry y) h = Some mg \<and> mg_refcnt mg = 0)"
proof -
  from inv have
    i6: "cb y = CbUnlocked \<Longrightarrow> \<exists>mg. mgmem_heap (registry y) h = Some mg \<and> mg_refcnt mg = 0"
    unfolding mg_inv_def by blast
  show ?thesis
  proof (cases op')
    case (Acquire euid)
    with st obtain res s' where g: "strom_get_mapped_gpu_memory hash h euid (registry y) = Inr (res, s')"
      and y': "y' = y\<lparr>registry := s'\<rparr>"
      by (auto simp: mg_step_def split: sum.splits prod.splits)
    from get_cases [OF g] fr y' show ?thesis by auto
  next
    case Release
    with st obtain s' where p: "strom_put_mapped_gpu_memory h (registry y) = Inr s'"
      and y': "y' = y\<lparr>registry := s'\<rparr>"
      by (auto simp: mg_step_def split: sum.splits)
    from p have "mg_events s' = mg_events (registry y) \<or>
       (\<exists>t. mg_events s' = mg_events (registry y) @ [WakeUpProcess t])"
      by (auto simp: strom_put_mapped_gpu_memory_def split: option.splits if_splits)
    with put_mg_cases [OF p] fr y' show ?thesis by auto
  next
    case (Unmap euid)
    with st obtain rv s' where u: "ioctl_unmap_gpu_memory hash pp h euid (registry y) = Inr (rv, s')"
      and y': "y' = y\<lparr>registry := s'\<rparr>"
      by (auto simp: mg_step_def split: sum.splits prod.splits)
    from u have "mg_events s' = mg_events (registry y) \<or>
       (\<exists>a. mg_events s' = mg_events (registry y) @ [PutPages a])"
      by (auto simp: ioctl_unmap_gpu_memory_def Let_def split: sum.splits option.splits)
    with unmap_cases [OF u] fr y' show ?thesis by auto
  next
    case (RevokeEnter cur)
    show ?thesis
    proof (cases "cb y = CbIdle")
      case False
      with st RevokeEnter have "y' = y" by (auto simp: mg_step_def split: cb_pc.splits)
      with fr show ?thesis by auto
    next
      case True
      with st RevokeEnter obtain pc s' where e: "callback_release_enter h cur (registry y) = Inr (pc, s')"
        and y': "y' = \<lparr>registry = s', cb = pc\<rparr>"
        by (auto simp: mg_step_def split: sum.splits prod.splits)
      from e have "mg_events s' = mg_events (registry y)"
        by (auto simp: callback_release_enter_def Let_def split: option.splits if_splits)
      with enter_cases [OF e] fr y' show ?thesis by auto
    qed
  next
    case RevokeWake
    show ?thesis
    proof (cases "cb y")
      case (CbSleeping saved)
      with st RevokeWake obtain pc s' where e: "callback_release_wake h saved (registry y) = Inr (pc, s')"
        and y': "y' = \<lparr>registry = s', cb = pc\<rparr>"
        by (auto simp: mg_step_def split: sum.splits prod.splits)
      from e have "mg_events s' = mg_events (registry y) \<or>
         (\<exists>t. mg_events s' = mg_events (registry y) @ [WakeUpProcess t])"
        by (auto simp: callback_release_wake_def split: option.splits if_splits)
      with wake_cases [OF e] fr y' show ?thesis by auto
    qed (use st RevokeWake fr in \<open>auto simp: mg_step_def\<close>)
  next
    case RevokeFree
    show ?thesis
    proof (cases "cb y")
      case CbUnlocked
      from i6 [OF this] RevokeFree show ?thesis by simp
    qed (use st RevokeFree fr in \<open>auto simp: mg_step_def\<close>)
  qed
qed


text \<open>Only an acquire and a release change the count of a record that stays.\<close>

lemma mg_step_count:
  assumes st: "mg_step hash pp h op' y = Inr y'"
    and na: "\<And>euid. op' \<noteq> Acquire euid" and nr: "op' \<noteq> Release"
    and s': "mgmem_heap (registry y') h = Some mg'"
  shows "\<exists>mg. mgmem_heap (registry y) h = Some mg \<and> mg_refcnt mg' = mg_refcnt mg"
proof (cases op')
  case (Acquire euid)
  with na [of euid] show ?thesis by simp
next
  case Release
  with nr show ?thesis by simp
next
  case (Unmap euid)
  with st obtain rv s' where u: "ioctl_unmap_gpu_memory hash pp h euid (registry y) = Inr (rv, s')"
    and y': "y' = y\<lparr>registry := s'\<rparr>"
    by (auto simp: mg_step_def split: sum.splits prod.splits)
  from unmap_cases [OF u] y' s' show ?thesis by simp
next
  case (RevokeEnter cur)
  show ?thesis
  proof (cases "cb y = CbIdle")
    case False
    with st RevokeEnter have "y' = y" by (auto simp: mg_step_def split: cb_pc.splits)
    with s' show ?thesis by simp
  next
    case True
    with st RevokeEnter obtain pc s' where e: "callback_release_enter h cur (registry y) = Inr (pc, s')"
      and y': "y' = \<lparr>registry = s', cb = pc\<rparr>"
      by (auto simp: mg_step_def split: sum.splits prod.splits)
    from enter_cases [OF e] y' s' show ?thesis by auto
  qed
next
  case RevokeWake
  show ?thesis
  proof (cases "cb y")
    case (CbSleeping saved)
    with st RevokeWake obtain pc s' where e: "callback_release_wake h saved (registry y) = Inr (pc, s')"
      and y': "y' = \<lparr>registry = s', cb = pc\<rparr>"
      by (auto simp: mg_step_def split: sum.splits prod.splits)
    from wake_cases [OF e] y' s' show ?thesis by auto
  qed (use st RevokeWake s' in \<open>auto simp: mg_step_def\<close>)
next
  case RevokeFree
  show ?thesis
  proof (cases "cb y")
    case CbUnlocked
    with st RevokeFree obtain pc s' where e: "callback_release_free h (registry y) = Inr (pc, s')"
      and y': "y' = \<lparr>registry = s', cb = pc\<rparr>"
      by (auto simp: mg_step_def split: sum.splits prod.splits)
    from free_cases [OF e] y' s' show ?thesis by auto
  qed (use st RevokeFree s' in \<open>auto simp: mg_step_def\<close>)
qed

text \<open>
  One step of a schedule that keeps below \<open>INT_MAX\<close> references: the invariant holds
  after it, and the count stays at or below the references the schedule holds.
\<close>

lemma mg_step_held:
  assumes inv: "mg_inv hash h y"
    and le: "\<And>mg. mgmem_heap (registry y) h = Some mg \<Longrightarrow> sint (mg_refcnt mg) \<le> b"
    and hb: "held_below (op' # ops) b"
    and st: "mg_step hash pp h op' y = Inr y'"
  shows "\<exists>b'. mg_inv hash h y' \<and>
           (\<forall>mg. mgmem_heap (registry y') h = Some mg \<longrightarrow> sint (mg_refcnt mg) \<le> b') \<and>
           held_below ops b'"
proof -
  from inv have nn: "\<And>mg. mgmem_heap (registry y) h = Some mg \<Longrightarrow> 0 \<le>s mg_refcnt mg"
    unfolding mg_inv_def by blast
  show ?thesis
  proof (cases op')
    case (Acquire euid)
    with hb have b: "b < INT_MAX" and hb': "held_below ops (b + 1)" by simp_all
    have lim: "\<And>mg. mgmem_heap (registry y) h = Some mg \<Longrightarrow> sint (mg_refcnt mg) < INT_MAX"
      using le b by fastforce
    have inv': "mg_inv hash h y'" by (rule mg_step_inv [OF inv st]) (rule lim)
    from st Acquire obtain res s' where
      g: "strom_get_mapped_gpu_memory hash h euid (registry y) = Inr (res, s')"
      and y': "y' = y\<lparr>registry := s'\<rparr>"
      by (auto simp: mg_step_def split: sum.splits prod.splits)
    have "\<forall>mg. mgmem_heap (registry y') h = Some mg \<longrightarrow> sint (mg_refcnt mg) \<le> b + 1"
      using get_cases [OF g]
    proof
      assume "s' = registry y"
      with y' le show ?thesis by fastforce
    next
      assume "\<exists>mg. h \<in> set (strom_mgmem_slots (registry y) (strom_mapped_gpu_memory_index hash h)) \<and>
        mgmem_heap (registry y) h = Some mg \<and>
        s' = (registry y)\<lparr>mgmem_heap := (mgmem_heap (registry y))(h \<mapsto> mg\<lparr>mg_refcnt := mg_refcnt mg + 1\<rparr>)\<rparr>"
      then obtain mg where m: "mgmem_heap (registry y) h = Some mg"
        "s' = (registry y)\<lparr>mgmem_heap := (mgmem_heap (registry y))(h \<mapsto> mg\<lparr>mg_refcnt := mg_refcnt mg + 1\<rparr>)\<rparr>"
        by blast
      from refcnt_incr [OF nn [OF m(1)]] lim [OF m(1)]
      have "sint (mg_refcnt mg + 1) = sint (mg_refcnt mg) + 1" by (simp add: INT_MAX_def)
      with le [OF m(1)] y' m(2) show ?thesis by simp
    qed
    with inv' hb' show ?thesis by blast
  next
    case Release
    with hb have hb': "held_below ops (b - 1)" by simp
    have inv': "mg_inv hash h y'" by (rule mg_step_inv [OF inv st]) (simp add: Release)
    from st Release obtain s' where p: "strom_put_mapped_gpu_memory h (registry y) = Inr s'"
      and y': "y' = y\<lparr>registry := s'\<rparr>"
      by (auto simp: mg_step_def split: sum.splits)
    from put_mg_cases [OF p] obtain mg mg' where m: "mgmem_heap (registry y) h = Some mg"
      "0 <s mg_refcnt mg" "mg_refcnt mg' = mg_refcnt mg - 1"
      "mgmem_heap s' = (mgmem_heap (registry y))(h \<mapsto> mg')" by blast
    from refcnt_decr [OF m(2)] m(3) have "sint (mg_refcnt mg') = sint (mg_refcnt mg) - 1" by simp
    with le [OF m(1)] y' m(4)
    have "\<forall>mg. mgmem_heap (registry y') h = Some mg \<longrightarrow> sint (mg_refcnt mg) \<le> b - 1" by simp
    with inv' hb' show ?thesis by blast
  next
    case (Unmap euid)
    with hb have hb': "held_below ops b" by simp
    have inv': "mg_inv hash h y'" by (rule mg_step_inv [OF inv st]) (simp add: Unmap)
    from mg_step_count [OF st] Unmap le
    have "\<forall>mg. mgmem_heap (registry y') h = Some mg \<longrightarrow> sint (mg_refcnt mg) \<le> b" by fastforce
    with inv' hb' show ?thesis by blast
  next
    case (RevokeEnter cur)
    with hb have hb': "held_below ops b" by simp
    have inv': "mg_inv hash h y'" by (rule mg_step_inv [OF inv st]) (simp add: RevokeEnter)
    from mg_step_count [OF st] RevokeEnter le
    have "\<forall>mg. mgmem_heap (registry y') h = Some mg \<longrightarrow> sint (mg_refcnt mg) \<le> b" by fastforce
    with inv' hb' show ?thesis by blast
  next
    case RevokeWake
    with hb have hb': "held_below ops b" by simp
    have inv': "mg_inv hash h y'" by (rule mg_step_inv [OF inv st]) (simp add: RevokeWake)
    from mg_step_count [OF st] RevokeWake le
    have "\<forall>mg. mgmem_heap (registry y') h = Some mg \<longrightarrow> sint (mg_refcnt mg) \<le> b" by fastforce
    with inv' hb' show ?thesis by blast
  next
    case RevokeFree
    with hb have hb': "held_below ops b" by simp
    have inv': "mg_inv hash h y'" by (rule mg_step_inv [OF inv st]) (simp add: RevokeFree)
    from mg_step_count [OF st] RevokeFree le
    have "\<forall>mg. mgmem_heap (registry y') h = Some mg \<longrightarrow> sint (mg_refcnt mg) \<le> b" by fastforce
    with inv' hb' show ?thesis by blast
  qed
qed

lemma mg_run_held:
  assumes "mg_inv hash h y"
    and "\<And>mg. mgmem_heap (registry y) h = Some mg \<Longrightarrow> sint (mg_refcnt mg) \<le> b"
    and "held_below (ops1 @ ops2) b"
    and "mg_run hash pp h ops1 y = Inr y1"
  shows "\<exists>b1. mg_inv hash h y1 \<and>
           (\<forall>mg. mgmem_heap (registry y1) h = Some mg \<longrightarrow> sint (mg_refcnt mg) \<le> b1) \<and>
           held_below ops2 b1"
  using assms
proof (induction ops1 arbitrary: y b)
  case Nil
  then show ?case by auto
next
  case (Cons op' ops)
  from Cons.prems(4) obtain y' where s: "mg_step hash pp h op' y = Inr y'"
    and r: "mg_run hash pp h ops y' = Inr y1" by (auto split: sum.splits)
  from Cons.prems(3) have hb: "held_below (op' # (ops @ ops2)) b" by simp
  from mg_step_held [OF Cons.prems(1) Cons.prems(2) hb s] obtain b' where
    k: "mg_inv hash h y'"
      "\<And>mg. mgmem_heap (registry y') h = Some mg \<Longrightarrow> sint (mg_refcnt mg) \<le> b'"
      "held_below (ops @ ops2) b'" by blast
  from Cons.IH [OF k r] show ?case .
qed

lemma mg_registered_count:
  "mg_registered hash h y \<Longrightarrow> mgmem_heap (registry y) h = Some mg \<Longrightarrow> sint (mg_refcnt mg) \<le> 0"
  by (auto simp: mg_registered_def)

text \<open>
  What holds below the limit of the counter. Take a registered mapping \<open>h\<close> and any
  schedule of acquires, releases, unmaps and steps of the revocation callback that the
  kernel survives and in which no acquire is made while \<open>INT_MAX\<close> references are held
  (\<open>held_below\<close>). Before and after every step of the schedule the reference count of
  \<open>h\<close> is not negative; and a step that frees the record or the page table of \<open>h\<close> is
  the callback's (lines 270-274) and starts in a state where the record's reference
  count is 0.
\<close>

theorem mapping_refcount_safe:
  assumes "mg_registered hash h y0"
    and "held_below (ops1 @ op' # ops2) 0"
    and "mg_run hash put_pages h (ops1 @ op' # ops2) y0 = Inr y'"
  shows "\<exists>y1 y2. mg_run hash put_pages h ops1 y0 = Inr y1 \<and>
           mg_step hash put_pages h op' y1 = Inr y2 \<and>
           (\<forall>mg. mgmem_heap (registry y1) h = Some mg \<longrightarrow> 0 \<le>s mg_refcnt mg) \<and>
           (\<forall>mg. mgmem_heap (registry y2) h = Some mg \<longrightarrow> 0 \<le>s mg_refcnt mg) \<and>
           (mgmem_heap (registry y2) h = None \<and> mgmem_heap (registry y1) h \<noteq> None \<or>
            FreePageTable h \<in> set (mg_events (registry y2)) \<and>
            FreePageTable h \<notin> set (mg_events (registry y1)) \<longrightarrow>
              op' = RevokeFree \<and>
              (\<exists>mg. mgmem_heap (registry y1) h = Some mg \<and> mg_refcnt mg = 0))"
proof -
  from mg_run_append [OF assms(3)] obtain y1 where
    r1: "mg_run hash put_pages h ops1 y0 = Inr y1" and
    r2: "mg_run hash put_pages h (op' # ops2) y1 = Inr y'" by blast
  from r2 obtain y2 where st: "mg_step hash put_pages h op' y1 = Inr y2"
    by (auto split: sum.splits)
  from mg_run_held [OF mg_registered_inv [OF assms(1)] mg_registered_count [OF assms(1)]
      assms(2) r1]
  obtain b1 where inv1: "mg_inv hash h y1"
    and le1: "\<And>mg. mgmem_heap (registry y1) h = Some mg \<Longrightarrow> sint (mg_refcnt mg) \<le> b1"
    and hb1: "held_below (op' # ops2) b1" by blast
  from mg_step_held [OF inv1 le1 hb1 st] have inv2: "mg_inv hash h y2" by blast
  have nn1: "\<forall>mg. mgmem_heap (registry y1) h = Some mg \<longrightarrow> 0 \<le>s mg_refcnt mg"
    using inv1 unfolding mg_inv_def by blast
  have nn2: "\<forall>mg. mgmem_heap (registry y2) h = Some mg \<longrightarrow> 0 \<le>s mg_refcnt mg"
    using inv2 unfolding mg_inv_def by blast
  from r1 st nn1 nn2 mg_step_frees [OF inv1 st] show ?thesis by blast
qed

text \<open>
  Two tasks of the owner acquire the mapping (a stranger's acquire finds nothing), one
  releases it; the callback finds one reference and sleeps; the last release wakes it,
  and it frees the record with the count at 0.
\<close>

theorem mapping_refcount_safe_witness:
  "mg_registered example_hash 8192 example_mg_system \<and>
   held_below
     [Acquire 1000, Acquire 7, Acquire 1000, Release, RevokeEnter 77, Acquire 1000, Release,
      RevokeWake, RevokeFree] 0 \<and>
   (\<exists>y1 y2 mg.
      mg_run example_hash example_put_pages 8192
        [Acquire 1000, Acquire 7, Acquire 1000, Release, RevokeEnter 77, Acquire 1000, Release,
         RevokeWake] example_mg_system = Inr y1 \<and>
      mg_step example_hash example_put_pages 8192 RevokeFree y1 = Inr y2 \<and>
      mgmem_heap (registry y1) 8192 = Some mg \<and> mg_refcnt mg = 0 \<and>
      mgmem_heap (registry y2) 8192 = None)"
proof -
  let ?ops1 = "[Acquire 1000, Acquire 7, Acquire 1000, Release, RevokeEnter 77, Acquire 1000,
                Release, RevokeWake]"
  note defs = mg_step_def strom_get_mapped_gpu_memory_def strom_put_mapped_gpu_memory_def
    callback_release_enter_def callback_release_wake_def callback_release_free_def
    strom_mapped_gpu_memory_index_def MAPPED_GPU_MEMORY_NSLOTS_def INT_MAX_def
    example_mg_system_def example_mgmem_def example_hash_def example_put_pages_def Let_def
    word_sless_alt
  have reg: "mg_registered example_hash 8192 example_mg_system"
    by (simp add: mg_registered_def defs)
  have hb: "held_below (?ops1 @ RevokeFree # []) 0"
    by (simp add: INT_MAX_def)
  obtain z1 z2 where
    z1: "mg_run example_hash example_put_pages 8192 ?ops1 example_mg_system = Inr z1" and
    z2: "mg_step example_hash example_put_pages 8192 RevokeFree z1 = Inr z2" and
    fr: "mgmem_heap (registry z2) 8192 = None" "mgmem_heap (registry z1) 8192 \<noteq> None"
    by (simp add: defs)
  from z1 z2 have run: "mg_run example_hash example_put_pages 8192 (?ops1 @ RevokeFree # [])
      example_mg_system = Inr z2"
    by (simp add: defs)
  from mapping_refcount_safe [OF reg hb run] z1 z2 fr
  obtain mg where "mgmem_heap (registry z1) 8192 = Some mg" "mg_refcnt mg = 0" by auto
  with reg hb z1 z2 fr show ?thesis by (simp add: INT_MAX_def)
qed






section \<open>Merging block runs\<close>

lemma submit_ssd2gpu_memcpy_trace:
  assumes "submit_ssd2gpu_memcpy env mg d w = Inr (rv, w')"
  shows "page_cache w' = page_cache w \<and> locked_pages w' = locked_pages w \<and>
    (trace w' = trace w \<and> rv \<noteq> 0 \<or>
     (\<exists>sg. trace w' = trace w @ [NvmeSubmit (src_block d) (nr_blocks d) (dest_offset d) sg rv]))"
  using assms
  by (auto simp: submit_ssd2gpu_memcpy_def Let_def EINVAL_def ERANGE_def
      split: if_splits sum.splits prod.splits)



section \<open>What the chunk loop keeps\<close>

lemma direct_ids_append: "direct_ids (xs @ ys) = direct_ids xs @ direct_ids ys"
  by (induction xs rule: direct_ids.induct) simp_all

lemma writeback_calls_append: "writeback_calls (xs @ ys) = writeback_calls xs @ writeback_calls ys"
  by (induction xs rule: writeback_calls.induct) simp_all

lemma nvme_submits_append: "nvme_submits (xs @ ys) = nvme_submits xs @ nvme_submits ys"
  by (induction xs rule: nvme_submits.induct) simp_all

lemma submit_ssd2gpu_memcpy_routes:
  assumes "submit_ssd2gpu_memcpy env mg d w = Inr (rv, w')"
  shows "direct_ids (trace w') = direct_ids (trace w) \<and>
         writeback_calls (trace w') = writeback_calls (trace w)"
  using submit_ssd2gpu_memcpy_trace [OF assms]
  by (auto simp: direct_ids_append writeback_calls_append)

lemma submit_dma_page_view:
  assumes "submit_dma_page env mg fpos cur st = Inr (rv, st')"
  shows "route_view st' = route_view st"
proof -
  obtain r b where gb: "strom_get_block env (signed_drop_bit (unat (blocksz_shift (b_dtask st))) fpos) = (r, b)"
    by (cases "strom_get_block env (signed_drop_bit (unat (blocksz_shift (b_dtask st))) fpos)")
  show ?thesis
  proof (cases "submit_ssd2gpu_memcpy env mg (b_dtask st) (b_world st)")
    case (Inl f)
    with assms gb show ?thesis
      by (auto simp: submit_dma_page_def route_view_def Let_def split: if_splits)
  next
    case (Inr p)
    obtain rv2 w2 where p: "p = (rv2, w2)" by (cases p)
    from submit_ssd2gpu_memcpy_routes [OF Inr [unfolded p]] assms gb Inr p show ?thesis
      by (auto simp: submit_dma_page_def route_view_def Let_def split: if_splits)
  qed
qed

lemma submit_dma_loop_view:
  "submit_dma_loop env mg n fpos cur st = Inr (rv, st') \<Longrightarrow> route_view st' = route_view st"
proof (induction n arbitrary: fpos cur st)
  case 0
  then show ?case by simp
next
  case (Suc n)
  from Suc.prems obtain r1 st1 where
    p: "submit_dma_page env mg fpos cur st = Inr (r1, st1)"
    by (auto split: sum.splits)
  show ?case
  proof (cases "r1 = 0")
    case True
    with Suc.prems p have "submit_dma_loop env mg n (fpos + PAGE_CACHE_SIZE) (cur + PAGE_CACHE_SIZE) st1 = Inr (rv, st')"
      by simp
    from Suc.IH [OF this] submit_dma_page_view [OF p] show ?thesis by simp
  next
    case False
    with Suc.prems p have "st' = st1" by simp
    with submit_dma_page_view [OF p] show ?thesis by simp
  qed
qed

lemma writeback_page_view:
  assumes "writeback_page env fp i dest st = Inr (rv, st')"
  shows "route_view st' = route_view st"
  using assms
  by (auto simp: writeback_page_def route_view_def Let_def direct_ids_append writeback_calls_append
      split: if_splits option.splits sum.splits prod.splits)

lemma writeback_loop_view:
  "writeback_loop env fp n i dest st = Inr (rv, st') \<Longrightarrow> route_view st' = route_view st"
proof (induction n arbitrary: i dest st)
  case 0
  then show ?case by simp
next
  case (Suc n)
  from Suc.prems obtain r1 st1 where
    p: "writeback_page env fp i dest st = Inr (r1, st1)"
    by (auto split: sum.splits)
  show ?case
  proof (cases "r1 = 0")
    case True
    with Suc.prems p have "writeback_loop env fp n (Suc i) (dest + PAGE_CACHE_SIZE) st1 = Inr (rv, st')"
      by simp
    from Suc.IH [OF this] writeback_page_view [OF p] show ?thesis by simp
  next
    case False
    with Suc.prems p have "st' = st1" by simp
    with writeback_page_view [OF p] show ?thesis by simp
  qed
qed

lemma score_loop_trace:
  "score_loop n j k th (score, d, w) = Inr (score', d', w') \<Longrightarrow> trace w' = trace w"
proof (induction n arbitrary: j k score d w)
  case 0
  then show ?case by simp
next
  case (Suc n)
  then show ?case
    by (auto simp: find_lock_page_def Let_def split: if_splits option.splits prod.splits)
qed

lemma unlock_pages_trace: "trace (unlock_pages n d w) = trace w"
  by (simp add: unlock_pages_def)

lemma writeback_chunk_cases:
  assumes "writeback_chunk env mg nrp th cid dest st = Inr (rv, dest', st')"
  shows
   "(st' = st \<and> dest' = dest \<and> rv = - ERANGE \<and> i_size env < chunk_fpos (b_karg st) cid) \<or>
    (route_view st' =
       ((b_out st)[unat (nr_chunks (b_karg st) - (nr_ram2gpu (b_karg st) + 1)) := cid],
        (nr_ram2gpu (b_karg st) + 1, nr_ssd2gpu (b_karg st), nr_chunks (b_karg st),
         chunk_sz (b_karg st), relseg_sz (b_karg st), wb_buffer (b_karg st)),
        direct_ids (trace (b_world st)),
        writeback_calls (trace (b_world st)) @
          [(cid, wb_buffer (b_karg st) +
                 ucast (chunk_sz (b_karg st) *
                        (nr_chunks (b_karg st) - (nr_ram2gpu (b_karg st) + 1))))]) \<and>
     unat (nr_chunks (b_karg st) - (nr_ram2gpu (b_karg st) + 1)) < length (b_out st) \<and>
     dest' = dest) \<or>
    (route_view st' =
       ((b_out st)[unat (nr_ssd2gpu (b_karg st)) := cid],
        (nr_ram2gpu (b_karg st), nr_ssd2gpu (b_karg st) + 1, nr_chunks (b_karg st),
         chunk_sz (b_karg st), relseg_sz (b_karg st), wb_buffer (b_karg st)),
        direct_ids (trace (b_world st)) @ [cid],
        writeback_calls (trace (b_world st))) \<and>
     unat (nr_ssd2gpu (b_karg st)) < length (b_out st) \<and>
     dest' = dest + ucast (chunk_sz (b_karg st)))"
proof -
  let ?fpos = "chunk_fpos (b_karg st) cid"
  from assms have al: "?fpos AND (PAGE_CACHE_SIZE - 1) = 0"
    by (auto simp: writeback_chunk_def Let_def split: if_splits)
  show ?thesis
  proof (cases "i_size env < ?fpos")
    case True
    with assms al have "st' = st \<and> dest' = dest \<and> rv = - ERANGE"
      by (simp add: writeback_chunk_def Let_def)
    with True show ?thesis by blast
  next
    case False
    from assms al False obtain score d1 w1 where
      sc: "score_loop (unat nrp) 0 (ucast (signed_drop_bit PAGE_CACHE_SHIFT ?fpos)) th
             (0, b_dtask st, b_world st) = Inr (score, d1, w1)"
      by (auto simp: writeback_chunk_def Let_def split: sum.splits)
    have tr1: "trace w1 = trace (b_world st)" by (rule score_loop_trace [OF sc])
    define st1 where "st1 = st\<lparr>b_dtask := d1, b_world := w1\<rparr>"
    show ?thesis
    proof (cases "th <s score")
      case wb: True
      define k' where "k' = (b_karg st)\<lparr>nr_ram2gpu := nr_ram2gpu (b_karg st) + 1\<rparr>"
      define du where "du = wb_buffer (b_karg st) +
          ucast (chunk_sz (b_karg st) * (nr_chunks (b_karg st) - (nr_ram2gpu (b_karg st) + 1)))"
      define st2 where "st2 = st1\<lparr>b_karg := k',
          b_world := w1\<lparr>trace := trace w1 @ [CallWriteback cid ?fpos du]\<rparr>\<rparr>"
      from assms al False sc wb obtain r3 st3 where
        in3: "uu_memcpy_ssd2gpu_writeback env nrp ?fpos du st2 = Inr (r3, st3)"
        by (auto simp: writeback_chunk_def Let_def st2_def st1_def k'_def du_def
            split: sum.splits)
      have v3: "route_view st3 = route_view st2"
        using in3 unfolding uu_memcpy_ssd2gpu_writeback_def by (rule writeback_loop_view)
      have v2: "route_view st2 =
         (b_out st,
          (nr_ram2gpu (b_karg st) + 1, nr_ssd2gpu (b_karg st), nr_chunks (b_karg st),
           chunk_sz (b_karg st), relseg_sz (b_karg st), wb_buffer (b_karg st)),
          direct_ids (trace (b_world st)),
          writeback_calls (trace (b_world st)) @ [(cid, du)])"
        by (simp add: route_view_def st2_def st1_def k'_def tr1 direct_ids_append
            writeback_calls_append)
      let ?ix = "unat (nr_chunks (b_karg st) - (nr_ram2gpu (b_karg st) + 1))"
      from v3 v2 have k3: "nr_chunks (b_karg st3) = nr_chunks (b_karg st)"
        "nr_ram2gpu (b_karg st3) = nr_ram2gpu (b_karg st) + 1" "b_out st3 = b_out st"
        by (simp_all add: route_view_def)
      from assms al False sc wb in3 k3 have
        ix: "?ix < length (b_out st)" and
        res: "dest' = dest" "b_out st' = (b_out st)[?ix := cid]"
          "b_karg st' = b_karg st3" "trace (b_world st') = trace (b_world st3)"
        by (auto simp: writeback_chunk_def Let_def st2_def st1_def k'_def du_def
            unlock_pages_trace split: if_splits)
      from res v3 v2 have "route_view st' =
         ((b_out st)[?ix := cid],
          (nr_ram2gpu (b_karg st) + 1, nr_ssd2gpu (b_karg st), nr_chunks (b_karg st),
           chunk_sz (b_karg st), relseg_sz (b_karg st), wb_buffer (b_karg st)),
          direct_ids (trace (b_world st)),
          writeback_calls (trace (b_world st)) @ [(cid, du)])"
        by (simp add: route_view_def)
      with ix res(1) show ?thesis unfolding du_def by blast
    next
      case direct: False
      define st2 where "st2 = st1\<lparr>b_world := w1\<lparr>trace := trace w1 @ [CallSubmitDma cid ?fpos dest]\<rparr>\<rparr>"
      from assms al False sc direct obtain r3 st3 where
        in3: "uu_memcpy_ssd2gpu_submit_dma env mg nrp ?fpos dest st2 = Inr (r3, st3)"
        by (auto simp: writeback_chunk_def Let_def st2_def st1_def split: sum.splits)
      have v3: "route_view st3 = route_view st2"
        using in3 unfolding uu_memcpy_ssd2gpu_submit_dma_def by (rule submit_dma_loop_view)
      have v2: "route_view st2 =
         (b_out st,
          (nr_ram2gpu (b_karg st), nr_ssd2gpu (b_karg st), nr_chunks (b_karg st),
           chunk_sz (b_karg st), relseg_sz (b_karg st), wb_buffer (b_karg st)),
          direct_ids (trace (b_world st)) @ [cid],
          writeback_calls (trace (b_world st)))"
        by (simp add: route_view_def st2_def st1_def tr1 direct_ids_append
            writeback_calls_append)
      let ?ix = "unat (nr_ssd2gpu (b_karg st))"
      from v3 v2 have k3: "nr_ssd2gpu (b_karg st3) = nr_ssd2gpu (b_karg st)"
        "chunk_sz (b_karg st3) = chunk_sz (b_karg st)" "b_out st3 = b_out st"
        by (simp_all add: route_view_def)
      from assms al False sc direct in3 k3 have
        ix: "?ix < length (b_out st)" and
        res: "dest' = dest + ucast (chunk_sz (b_karg st))" "b_out st' = (b_out st)[?ix := cid]"
          "b_karg st' = (b_karg st3)\<lparr>nr_ssd2gpu := nr_ssd2gpu (b_karg st3) + 1\<rparr>"
          "trace (b_world st') = trace (b_world st3)"
        by (auto simp: writeback_chunk_def Let_def st2_def st1_def
            unlock_pages_trace split: if_splits)
      from res v3 v2 have "route_view st' =
         ((b_out st)[?ix := cid],
          (nr_ram2gpu (b_karg st), nr_ssd2gpu (b_karg st) + 1, nr_chunks (b_karg st),
           chunk_sz (b_karg st), relseg_sz (b_karg st), wb_buffer (b_karg st)),
          direct_ids (trace (b_world st)) @ [cid],
          writeback_calls (trace (b_world st)))"
        by (simp add: route_view_def)
      with ix res(1) show ?thesis by blast
    qed
  qed
qed

lemma batch_inv_view:
  "batch_inv m st \<longleftrightarrow>
     (case route_view st of (out, (ram, ssd, nrc, sz, rs, wb), ds, ws) \<Rightarrow>
        length out = unat nrc \<and> unat ssd + unat ram + m = unat nrc \<and>
        length ds = unat ssd \<and> length ws = unat ram \<and>
        take (unat ssd) out = ds \<and>
        drop (unat nrc - unat ram) out = rev (map fst ws) \<and>
        map snd ws = map (\<lambda>j. wb + ucast (sz * (nrc - of_nat (j + 1)))) [0..<unat ram])"
  by (simp add: batch_inv_def route_view_def Let_def)

lemma unat_succ_bounded:
  fixes x :: u32
  assumes "unat x < unat (y :: u32)"
  shows "unat (x + 1) = unat x + 1"
proof -
  have "unat y < 2 ^ 32" using unsigned_less [of y] by simp
  with assms have "unat x + unat (1 :: u32) < 2 ^ LENGTH(32)" by simp
  then have "unat (x + 1) = unat x + unat (1 :: u32)" by (simp only: unat_add_lem)
  then show ?thesis by simp
qed

lemma inv_writeback_step:
  fixes ram ssd nrc sz :: u32 and wb :: u64
  assumes len: "length out = unat nrc" and cnt: "unat ssd + unat ram + Suc m = unat nrc"
    and lds: "length ds = unat ssd" and lws: "length ws = unat ram"
    and tk: "take (unat ssd) out = ds"
    and dr: "drop (unat nrc - unat ram) out = rev (map fst ws)"
    and ad: "map snd ws = map (\<lambda>j. wb + ucast (sz * (nrc - of_nat (j + 1)))) [0..<unat ram]"
  shows "length (out[unat (nrc - (ram + 1)) := cid]) = unat nrc \<and>
     unat ssd + unat (ram + 1) + m = unat nrc \<and>
     length (ws @ [(cid, wb + ucast (sz * (nrc - (ram + 1))))]) = unat (ram + 1) \<and>
     take (unat ssd) (out[unat (nrc - (ram + 1)) := cid]) = ds \<and>
     drop (unat nrc - unat (ram + 1)) (out[unat (nrc - (ram + 1)) := cid]) =
       rev (map fst (ws @ [(cid, wb + ucast (sz * (nrc - (ram + 1))))])) \<and>
     map snd (ws @ [(cid, wb + ucast (sz * (nrc - (ram + 1))))]) =
       map (\<lambda>j. wb + ucast (sz * (nrc - of_nat (j + 1)))) [0..<unat (ram + 1)]"
proof -
  from cnt have lt: "unat ram < unat nrc" by simp
  have r1: "unat (ram + 1) = unat ram + 1" by (rule unat_succ_bounded [OF lt])
  have le: "ram + 1 \<le> nrc" using lt r1 by (simp add: word_le_nat_alt)
  have ix: "unat (nrc - (ram + 1)) = unat nrc - (unat ram + 1)"
    using le r1 by (simp add: unat_sub)
  have ixlt: "unat nrc - (unat ram + 1) < length out" using len lt by simp
  have d1: "drop (unat nrc - (unat ram + 1)) (out[unat nrc - (unat ram + 1) := cid]) =
        cid # drop (unat nrc - unat ram) out"
  proof -
    have "Suc (unat nrc - (unat ram + 1)) = unat nrc - unat ram" using lt by simp
    with ixlt show ?thesis
      by (metis Cons_nth_drop_Suc drop_update_cancel length_list_update lessI nth_list_update_eq)
  qed
  have t1: "take (unat ssd) (out[unat nrc - (unat ram + 1) := cid]) = take (unat ssd) out"
    using cnt by (simp add: take_update_cancel)
  have c1: "length (out[unat (nrc - (ram + 1)) := cid]) = unat nrc" using len by simp
  have c2: "unat ssd + unat (ram + 1) + m = unat nrc" using cnt r1 by simp
  have c3: "length (ws @ [(cid, wb + ucast (sz * (nrc - (ram + 1))))]) = unat (ram + 1)"
    using lws r1 by simp
  have c4: "take (unat ssd) (out[unat (nrc - (ram + 1)) := cid]) = ds"
    unfolding ix t1 by (rule tk)
  have c5: "drop (unat nrc - unat (ram + 1)) (out[unat (nrc - (ram + 1)) := cid]) =
       rev (map fst (ws @ [(cid, wb + ucast (sz * (nrc - (ram + 1))))]))"
    unfolding ix r1 d1 dr by simp
  have up: "[0..<unat (ram + 1)] = [0..<unat ram] @ [unat ram]" unfolding r1 by simp
  have c6: "map snd (ws @ [(cid, wb + ucast (sz * (nrc - (ram + 1))))]) =
       map (\<lambda>j. wb + ucast (sz * (nrc - of_nat (j + 1)))) [0..<unat (ram + 1)]"
    unfolding up using ad by (simp add: add.commute)
  from c1 c2 c3 c4 c5 c6 show ?thesis by blast
qed

lemma inv_direct_step:
  fixes ram ssd nrc :: u32
  assumes len: "length out = unat nrc" and cnt: "unat ssd + unat ram + Suc m = unat nrc"
    and lds: "length ds = unat ssd"
    and tk: "take (unat ssd) out = ds"
    and dr: "drop (unat nrc - unat ram) out = rev (map fst ws)"
  shows "length (out[unat ssd := cid]) = unat nrc \<and>
     unat (ssd + 1) + unat ram + m = unat nrc \<and>
     length (ds @ [cid]) = unat (ssd + 1) \<and>
     take (unat (ssd + 1)) (out[unat ssd := cid]) = ds @ [cid] \<and>
     drop (unat nrc - unat ram) (out[unat ssd := cid]) = rev (map fst ws)"
proof -
  from cnt have lt: "unat ssd < unat nrc" by simp
  have s1: "unat (ssd + 1) = unat ssd + 1" by (rule unat_succ_bounded [OF lt])
  have t1: "take (unat ssd + 1) (out[unat ssd := cid]) = take (unat ssd) out @ [cid]"
    using len lt by (simp add: take_Suc_conv_app_nth)
  have d1: "drop (unat nrc - unat ram) (out[unat ssd := cid]) = drop (unat nrc - unat ram) out"
    using cnt by (simp add: drop_update_cancel)
  have c1: "length (out[unat ssd := cid]) = unat nrc" using len by simp
  have c2: "unat (ssd + 1) + unat ram + m = unat nrc" using cnt s1 by simp
  have c3: "length (ds @ [cid]) = unat (ssd + 1)" using lds s1 by simp
  have c4: "take (unat (ssd + 1)) (out[unat ssd := cid]) = ds @ [cid]"
    unfolding s1 t1 tk ..
  have c5: "drop (unat nrc - unat ram) (out[unat ssd := cid]) = rev (map fst ws)"
    unfolding d1 by (rule dr)
  from c1 c2 c3 c4 c5 show ?thesis by blast
qed

lemma batch_inv_step:
  assumes inv: "batch_inv (Suc m) st"
    and step: "writeback_chunk env mg nrp th cid dest st = Inr (rv, dest', st')"
  shows "batch_inv m st' \<or> (st' = st \<and> rv \<noteq> 0)"
proof -
  obtain out ram ssd nrc sz rs wb ds ws where
    v: "route_view st = (out, (ram, ssd, nrc, sz, rs, wb), ds, ws)"
    by (metis prod_cases4 prod_cases3)
  have vs: "out = b_out st" "ram = nr_ram2gpu (b_karg st)" "ssd = nr_ssd2gpu (b_karg st)"
    "nrc = nr_chunks (b_karg st)" "sz = chunk_sz (b_karg st)" "rs = relseg_sz (b_karg st)"
    "wb = wb_buffer (b_karg st)" "ds = direct_ids (trace (b_world st))"
    "ws = writeback_calls (trace (b_world st))"
    using v by (simp_all add: route_view_def)
  from inv v have i:
    "length out = unat nrc" "unat ssd + unat ram + Suc m = unat nrc"
    "length ds = unat ssd" "length ws = unat ram" "take (unat ssd) out = ds"
    "drop (unat nrc - unat ram) out = rev (map fst ws)"
    "map snd ws = map (\<lambda>j. wb + ucast (sz * (nrc - of_nat (j + 1)))) [0..<unat ram]"
    by (simp_all add: batch_inv_view)
  from writeback_chunk_cases [OF step]
  consider (range) "st' = st" "rv = - ERANGE"
    | (wb) "route_view st' = (out[unat (nrc - (ram + 1)) := cid],
         (ram + 1, ssd, nrc, sz, rs, wb), ds, ws @ [(cid, wb + ucast (sz * (nrc - (ram + 1))))])"
    | (direct) "route_view st' = (out[unat ssd := cid], (ram, ssd + 1, nrc, sz, rs, wb),
         ds @ [cid], ws)"
    unfolding vs by blast
  then show ?thesis
  proof cases
    case range
    then show ?thesis by (simp add: ERANGE_def)
  next
    case wb
    from inv_writeback_step [OF i, of cid] i(3) have "batch_inv m st'"
      unfolding batch_inv_view wb by simp
    then show ?thesis ..
  next
    case direct
    from inv_direct_step [OF i(1,2,3,5,6), of cid] i(4,7) have "batch_inv m st'"
      unfolding batch_inv_view direct by simp
    then show ?thesis ..
  qed
qed

lemma chunk_loop_inv:
  "batch_inv (length cs) st \<Longrightarrow> chunk_loop env mg nrp th cs dest st = Inr (rv, dest', st') \<Longrightarrow>
   \<exists>m. batch_inv m st' \<and> (rv = 0 \<longrightarrow> m = 0)"
proof (induction cs arbitrary: dest st)
  case Nil
  then show ?case by auto
next
  case (Cons cid cs)
  from Cons.prems(2) obtain r1 d1 st1 where
    step: "writeback_chunk env mg nrp th cid dest st = Inr (r1, d1, st1)"
    by (auto split: sum.splits)
  from Cons.prems(1) have inv: "batch_inv (Suc (length cs)) st" by simp
  show ?case
  proof (cases "r1 = 0")
    case True
    with Cons.prems(2) step have loop: "chunk_loop env mg nrp th cs d1 st1 = Inr (rv, dest', st')"
      by simp
    from batch_inv_step [OF inv step] True have "batch_inv (length cs) st1" by auto
    from Cons.IH [OF this loop] show ?thesis .
  next
    case False
    with Cons.prems(2) step have e: "rv = r1" "st' = st1" by simp_all
    from batch_inv_step [OF inv step] show ?thesis
    proof
      assume "batch_inv (length cs) st1"
      with e False show ?thesis by auto
    next
      assume "st1 = st \<and> r1 \<noteq> 0"
      with e inv show ?thesis by auto
    qed
  qed
qed

lemma writeback_chunk_consts:
  assumes "writeback_chunk env mg nrp th cid dest st = Inr (rv, dest', st')"
  shows "nr_chunks (b_karg st') = nr_chunks (b_karg st) \<and> chunk_sz (b_karg st') = chunk_sz (b_karg st) \<and>
    relseg_sz (b_karg st') = relseg_sz (b_karg st) \<and> wb_buffer (b_karg st') = wb_buffer (b_karg st)"
  using writeback_chunk_cases [OF assms] by (auto simp: route_view_def)

lemma chunk_loop_consts:
  "chunk_loop env mg nrp th cs dest st = Inr (rv, dest', st') \<Longrightarrow>
   nr_chunks (b_karg st') = nr_chunks (b_karg st) \<and> chunk_sz (b_karg st') = chunk_sz (b_karg st) \<and>
   relseg_sz (b_karg st') = relseg_sz (b_karg st) \<and> wb_buffer (b_karg st') = wb_buffer (b_karg st)"
proof (induction cs arbitrary: dest st)
  case Nil
  then show ?case by simp
next
  case (Cons cid cs)
  from Cons.prems obtain r1 d1 st1 where
    step: "writeback_chunk env mg nrp th cid dest st = Inr (r1, d1, st1)"
    by (auto split: sum.splits)
  show ?case
  proof (cases "r1 = 0")
    case True
    with Cons.prems step have "chunk_loop env mg nrp th cs d1 st1 = Inr (rv, dest', st')" by simp
    from Cons.IH [OF this] writeback_chunk_consts [OF step] show ?thesis by simp
  next
    case False
    with Cons.prems step have "st' = st1" by simp
    with writeback_chunk_consts [OF step] show ?thesis by simp
  qed
qed

lemma chunk_loop_append:
  "chunk_loop env mg nrp th (pre @ rest) dest st =
     (case chunk_loop env mg nrp th pre dest st of
        Inl f \<Rightarrow> Inl f
      | Inr (rv, d1, st1) \<Rightarrow>
          if rv \<noteq> 0 then Inr (rv, d1, st1) else chunk_loop env mg nrp th rest d1 st1)"
  by (induction pre arbitrary: dest st) (auto split: sum.splits)

lemma memcpy_ssd2gpu_writeback_cases:
  assumes "memcpy_ssd2gpu_writeback env mg ids st = Inr (rv, st')"
  shows "(st' = st \<and> rv \<noteq> 0) \<or>
    (\<exists>r1 d1 st1. unat (nr_chunks (b_karg st)) \<le> length ids \<and>
       chunk_loop env mg (drop_bit PAGE_CACHE_SHIFT (chunk_sz (b_karg st)))
         (drop_bit PAGE_CACHE_SHIFT (chunk_sz (b_karg st)) div 2)
         (take (unat (nr_chunks (b_karg st))) ids) (map_offset mg + offset (b_karg st)) st =
         Inr (r1, d1, st1) \<and> rv = r1 \<and>
       (if r1 \<noteq> 0 then st' = st1
        else route_view st' = route_view st1 \<and>
             nr_ram2gpu (b_karg st') + nr_ssd2gpu (b_karg st') = nr_chunks (b_karg st')))"
proof (cases "chunk_sz (b_karg st) AND 4095 \<noteq> 0 \<or>
    (ucast (chunk_sz (b_karg st)) :: u64) < PAGE_CACHE_SIZE \<or>
    (ucast (chunk_sz (b_karg st)) :: u64) > STROM_DMA_SSD2GPU_MAXLEN")
  case True
  with assms have "st' = st \<and> rv \<noteq> 0"
    by (auto simp: memcpy_ssd2gpu_writeback_def Let_def EINVAL_def)
  then show ?thesis ..
next
  case sane: False
  show ?thesis
  proof (cases "map_offset mg + offset (b_karg st) +
      ucast (nr_chunks (b_karg st) * chunk_sz (b_karg st)) > map_length mg")
    case True
    with sane assms have "st' = st \<and> rv \<noteq> 0"
      by (auto simp: memcpy_ssd2gpu_writeback_def Let_def ERANGE_def)
    then show ?thesis ..
  next
    case inr: False
    from sane inr assms have len: "unat (nr_chunks (b_karg st)) \<le> length ids"
      by (auto simp: memcpy_ssd2gpu_writeback_def Let_def split: if_splits)
    from sane inr len assms obtain r1 d1 st1 where
      loop: "chunk_loop env mg (drop_bit PAGE_CACHE_SHIFT (chunk_sz (b_karg st)))
         (drop_bit PAGE_CACHE_SHIFT (chunk_sz (b_karg st)) div 2)
         (take (unat (nr_chunks (b_karg st))) ids) (map_offset mg + offset (b_karg st)) st =
         Inr (r1, d1, st1)"
      by (auto simp: memcpy_ssd2gpu_writeback_def Let_def split: sum.splits)
    show ?thesis
    proof (cases "r1 = 0")
      case False
      with sane inr len loop assms have "rv = r1 \<and> st' = st1"
        by (auto simp: memcpy_ssd2gpu_writeback_def Let_def)
      with len loop False show ?thesis by auto
    next
      case True
      show ?thesis
      proof (cases "nr_blocks (b_dtask st1) > 0")
        case False
        with True sane inr len loop assms have "rv = 0 \<and> st' = st1 \<and>
            nr_ram2gpu (b_karg st1) + nr_ssd2gpu (b_karg st1) = nr_chunks (b_karg st1)"
          by (auto simp: memcpy_ssd2gpu_writeback_def Let_def split: if_splits)
        with len loop True show ?thesis by auto
      next
        case pend: True
        from True pend sane inr len loop assms obtain r2 w2 where
          sub: "submit_ssd2gpu_memcpy env mg (b_dtask st1) (b_world st1) = Inr (r2, w2)"
          by (auto simp: memcpy_ssd2gpu_writeback_def Let_def split: sum.splits)
        define st2 where "st2 = st1\<lparr>b_karg := (b_karg st1)\<lparr>nr_dma_submit := nr_dma_submit (b_karg st1) + 1,
              nr_dma_blocks := nr_dma_blocks (b_karg st1) + nr_blocks (b_dtask st1)\<rparr>,
            b_world := w2\<rparr>"
        from True pend sane inr len loop sub assms have "rv = 0 \<and> st' = st2 \<and>
            nr_ram2gpu (b_karg st2) + nr_ssd2gpu (b_karg st2) = nr_chunks (b_karg st2)"
          by (auto simp: memcpy_ssd2gpu_writeback_def Let_def st2_def split: if_splits)
        moreover have "route_view st2 = route_view st1"
          using submit_ssd2gpu_memcpy_routes [OF sub] by (simp add: route_view_def st2_def)
        ultimately show ?thesis using len loop True by auto
      qed
    qed
  qed
qed

lemma batch_inv_init:
  assumes "nr_ram2gpu (b_karg st) = 0" "nr_ssd2gpu (b_karg st) = 0"
    "length (b_out st) = unat (nr_chunks (b_karg st))" "trace (b_world st) = []"
  shows "batch_inv (unat (nr_chunks (b_karg st))) st"
  using assms by (simp add: batch_inv_def Let_def)

lemma memcpy_ssd2gpu_writeback_inv:
  assumes init: "nr_ram2gpu (b_karg st) = 0" "nr_ssd2gpu (b_karg st) = 0"
    "length (b_out st) = unat (nr_chunks (b_karg st))" "trace (b_world st) = []"
    and run: "memcpy_ssd2gpu_writeback env mg ids st = Inr (rv, st')"
  shows "(\<exists>m. batch_inv m st' \<and> (rv = 0 \<longrightarrow> m = 0)) \<and>
    nr_chunks (b_karg st') = nr_chunks (b_karg st) \<and> chunk_sz (b_karg st') = chunk_sz (b_karg st) \<and>
    wb_buffer (b_karg st') = wb_buffer (b_karg st)"
proof -
  note i0 = batch_inv_init [OF init]
  from memcpy_ssd2gpu_writeback_cases [OF run] show ?thesis
  proof
    assume "st' = st \<and> rv \<noteq> 0"
    with i0 show ?thesis by auto
  next
    assume "\<exists>r1 d1 st1. unat (nr_chunks (b_karg st)) \<le> length ids \<and>
       chunk_loop env mg (drop_bit PAGE_CACHE_SHIFT (chunk_sz (b_karg st)))
         (drop_bit PAGE_CACHE_SHIFT (chunk_sz (b_karg st)) div 2)
         (take (unat (nr_chunks (b_karg st))) ids) (map_offset mg + offset (b_karg st)) st =
         Inr (r1, d1, st1) \<and> rv = r1 \<and>
       (if r1 \<noteq> 0 then st' = st1
        else route_view st' = route_view st1 \<and>
             nr_ram2gpu (b_karg st') + nr_ssd2gpu (b_karg st') = nr_chunks (b_karg st'))"
    then obtain r1 d1 st1 where len: "unat (nr_chunks (b_karg st)) \<le> length ids"
      and loop: "chunk_loop env mg (drop_bit PAGE_CACHE_SHIFT (chunk_sz (b_karg st)))
         (drop_bit PAGE_CACHE_SHIFT (chunk_sz (b_karg st)) div 2)
         (take (unat (nr_chunks (b_karg st))) ids) (map_offset mg + offset (b_karg st)) st =
         Inr (r1, d1, st1)" and rv: "rv = r1"
      and fin: "if r1 \<noteq> 0 then st' = st1
        else route_view st' = route_view st1 \<and>
             nr_ram2gpu (b_karg st') + nr_ssd2gpu (b_karg st') = nr_chunks (b_karg st')"
      by blast
    from len have l: "length (take (unat (nr_chunks (b_karg st))) ids) = unat (nr_chunks (b_karg st))"
      by simp
    have i1: "batch_inv (length (take (unat (nr_chunks (b_karg st))) ids)) st"
      unfolding l by (rule i0)
    from chunk_loop_inv [OF i1 loop] obtain m where
      m: "batch_inv m st1" "r1 = 0 \<longrightarrow> m = 0" by blast
    from fin have v: "route_view st' = route_view st1" by (auto split: if_splits)
    from m(1) v have "batch_inv m st'" by (simp add: batch_inv_view)
    moreover from v chunk_loop_consts [OF loop] have
      "nr_chunks (b_karg st') = nr_chunks (b_karg st) \<and> chunk_sz (b_karg st') = chunk_sz (b_karg st) \<and>
       wb_buffer (b_karg st') = wb_buffer (b_karg st)"
      by (simp add: route_view_def)
    ultimately show ?thesis using m(2) rv by auto
  qed
qed

section \<open>The returned chunk ids and the write-back buffer\<close>

text \<open>
  Claim C9. A batch that starts with both routing counters at 0, as the ioctl handler
  starts it, and returns 0: the counters add up to \<open>nr_chunks\<close>; the first \<open>nr_ssd2gpu\<close>
  entries of \<open>chunk_ids_out\<close> are the ids of the chunks sent down the direct path, in the
  order they were processed; and the last \<open>nr_ram2gpu\<close> entries, from position
  \<open>nr_chunks - nr_ram2gpu\<close> on, are the ids of the write-back chunks in reverse order of
  processing, that is filled from the back.
\<close>

theorem chunk_ids_out_layout:
  assumes "nr_ram2gpu (b_karg st) = 0" and "nr_ssd2gpu (b_karg st) = 0"
    and "length (b_out st) = unat (nr_chunks (b_karg st))" and "trace (b_world st) = []"
    and "memcpy_ssd2gpu_writeback env mg chunk_ids_in st = Inr (0, st')"
  shows "unat (nr_ssd2gpu (b_karg st')) + unat (nr_ram2gpu (b_karg st')) = unat (nr_chunks (b_karg st)) \<and>
    nr_chunks (b_karg st') = nr_chunks (b_karg st) \<and>
    length (b_out st') = unat (nr_chunks (b_karg st)) \<and>
    take (unat (nr_ssd2gpu (b_karg st'))) (b_out st') = direct_ids (trace (b_world st')) \<and>
    drop (unat (nr_chunks (b_karg st)) - unat (nr_ram2gpu (b_karg st'))) (b_out st') =
      rev (map fst (writeback_calls (trace (b_world st'))))"
proof -
  from memcpy_ssd2gpu_writeback_inv [OF assms] have
    inv: "batch_inv 0 st'" and c: "nr_chunks (b_karg st') = nr_chunks (b_karg st)" by auto
  from inv c show ?thesis by (simp add: batch_inv_def Let_def)
qed

text \<open>
  Five chunks of 32 KiB of which chunks 1 and 3 are cached: the ids come back as
  0, 2, 4 from the front and 1, 3 from the back.
\<close>

theorem chunk_ids_out_layout_witness:
  "nr_ram2gpu (b_karg (example_batch 5 32768 example_cache)) = 0 \<and>
   nr_ssd2gpu (b_karg (example_batch 5 32768 example_cache)) = 0 \<and>
   length (b_out (example_batch 5 32768 example_cache)) =
     unat (nr_chunks (b_karg (example_batch 5 32768 example_cache))) \<and>
   trace (b_world (example_batch 5 32768 example_cache)) = [] \<and>
   (\<exists>st'. memcpy_ssd2gpu_writeback (contiguous_env 1073741824 1000) example_mgmem [0, 1, 2, 3, 4]
            (example_batch 5 32768 example_cache) = Inr (0, st') \<and>
      b_out st' = [0, 2, 4, 3, 1] \<and>
      nr_ssd2gpu (b_karg st') = 3 \<and> nr_ram2gpu (b_karg st') = 2 \<and>
      take 3 (b_out st') = direct_ids (trace (b_world st')) \<and>
      drop 3 (b_out st') = rev (map fst (writeback_calls (trace (b_world st')))))"
proof -
  let ?st = "example_batch 5 32768 example_cache"
  have h1: "nr_ram2gpu (b_karg ?st) = 0" by code_simp
  have h2: "nr_ssd2gpu (b_karg ?st) = 0" by code_simp
  have h3: "length (b_out ?st) = unat (nr_chunks (b_karg ?st))" by code_simp
  have h4: "trace (b_world ?st) = []" by code_simp
  have n: "unat (nr_chunks (b_karg ?st)) = 5" by code_simp
  have e: "case memcpy_ssd2gpu_writeback (contiguous_env 1073741824 1000) example_mgmem
                  [0, 1, 2, 3, 4] ?st of
             Inl f \<Rightarrow> False
           | Inr (rv, st') \<Rightarrow> rv = 0 \<and> b_out st' = [0, 2, 4, 3, 1] \<and>
               nr_ssd2gpu (b_karg st') = 3 \<and> nr_ram2gpu (b_karg st') = 2"
    by code_simp
  then obtain st' where
    run: "memcpy_ssd2gpu_writeback (contiguous_env 1073741824 1000) example_mgmem [0, 1, 2, 3, 4]
            ?st = Inr (0, st')"
    and v: "b_out st' = [0, 2, 4, 3, 1]" "nr_ssd2gpu (b_karg st') = 3" "nr_ram2gpu (b_karg st') = 2"
    by (auto split: sum.splits prod.splits)
  from chunk_ids_out_layout [OF h1 h2 h3 h4 run] have
    "take (unat (nr_ssd2gpu (b_karg st'))) (b_out st') = direct_ids (trace (b_world st'))"
    "drop (unat (nr_chunks (b_karg ?st)) - unat (nr_ram2gpu (b_karg st'))) (b_out st') =
      rev (map fst (writeback_calls (trace (b_world st'))))"
    by blast+
  then have "take 3 (b_out st') = direct_ids (trace (b_world st'))"
    "drop 3 (b_out st') = rev (map fst (writeback_calls (trace (b_world st'))))"
    unfolding n v by simp_all
  with h1 h2 h3 h4 run v show ?thesis by blast
qed

text \<open>
  The destinations handed to the write-back path. In a batch that starts with both
  routing counters at 0, whatever it returns: for the \<open>k\<close>-th chunk sent down the
  write-back path (\<open>k = 1, 2, ...\<close>), \<open>__memcpy_ssd2gpu_writeback\<close> is called with the
  user address \<open>wb_buffer + chunk_sz * (nr_chunks - k)\<close>, the product taken in
  \<open>unsigned int\<close> as the source takes it; its id stands at position \<open>nr_chunks - k\<close> of
  \<open>chunk_ids_out\<close>, the same distance from the end. When \<open>chunk_sz * nr_chunks\<close> fits in
  32 bits the offset into the buffer is the number \<open>chunk_sz * (nr_chunks - k)\<close>.
\<close>

theorem writeback_buffer_from_end:
  assumes "nr_ram2gpu (b_karg st) = 0" and "nr_ssd2gpu (b_karg st) = 0"
    and "length (b_out st) = unat (nr_chunks (b_karg st))" and "trace (b_world st) = []"
    and "memcpy_ssd2gpu_writeback env mg chunk_ids_in st = Inr (rv, st')"
    and "1 \<le> k" and "k \<le> length (writeback_calls (trace (b_world st')))"
  shows "snd (writeback_calls (trace (b_world st')) ! (k - 1)) =
      wb_buffer (b_karg st) + ucast (chunk_sz (b_karg st) * (nr_chunks (b_karg st) - of_nat k)) \<and>
    k \<le> unat (nr_chunks (b_karg st)) \<and>
    b_out st' ! (unat (nr_chunks (b_karg st)) - k) = fst (writeback_calls (trace (b_world st')) ! (k - 1)) \<and>
    (unat (chunk_sz (b_karg st)) * unat (nr_chunks (b_karg st)) < 2 ^ 32 \<longrightarrow>
       unat (snd (writeback_calls (trace (b_world st')) ! (k - 1)) - wb_buffer (b_karg st)) =
         unat (chunk_sz (b_karg st)) * (unat (nr_chunks (b_karg st)) - k))"
proof -
  let ?ws = "writeback_calls (trace (b_world st'))"
  let ?n = "unat (nr_chunks (b_karg st))"
  let ?r = "unat (nr_ram2gpu (b_karg st'))"
  from memcpy_ssd2gpu_writeback_inv [OF assms(1-5)] obtain m where
    inv: "batch_inv m st'" and c: "nr_chunks (b_karg st') = nr_chunks (b_karg st)"
    "chunk_sz (b_karg st') = chunk_sz (b_karg st)" "wb_buffer (b_karg st') = wb_buffer (b_karg st)"
    by auto
  from inv c have
    len: "length (b_out st') = ?n" and cnt: "unat (nr_ssd2gpu (b_karg st')) + ?r + m = ?n"
    and lws: "length ?ws = ?r"
    and dr: "drop (?n - ?r) (b_out st') = rev (map fst ?ws)"
    and ad: "map snd ?ws = map (\<lambda>j. wb_buffer (b_karg st) +
               ucast (chunk_sz (b_karg st) * (nr_chunks (b_karg st) - of_nat (j + 1)))) [0..<?r]"
    by (simp_all add: batch_inv_def Let_def)
  from assms(6,7) lws have k: "k - 1 < ?r" "Suc (k - 1) = k" by simp_all
  from cnt have rn: "?r \<le> ?n" by simp
  with assms(7) lws have kn: "k \<le> ?n" by simp
  have "snd (?ws ! (k - 1)) = map snd ?ws ! (k - 1)" using k lws by simp
  also have "\<dots> = wb_buffer (b_karg st) +
               ucast (chunk_sz (b_karg st) * (nr_chunks (b_karg st) - of_nat (Suc (k - 1))))"
    unfolding ad using k(1) by simp
  finally have a1: "snd (?ws ! (k - 1)) = wb_buffer (b_karg st) +
      ucast (chunk_sz (b_karg st) * (nr_chunks (b_karg st) - of_nat k))"
    unfolding k(2) .
  have "b_out st' ! (?n - k) = drop (?n - ?r) (b_out st') ! (?r - k)"
    using rn assms(7) lws len by simp
  also have "\<dots> = rev (map fst ?ws) ! (?r - k)" unfolding dr ..
  also have "\<dots> = map fst ?ws ! (k - 1)"
    using assms(6,7) lws by (simp add: rev_nth Suc_diff_le)
  also have "\<dots> = fst (?ws ! (k - 1))" using k lws by simp
  finally have a2: "b_out st' ! (?n - k) = fst (?ws ! (k - 1))" .
  have a3: "unat (snd (?ws ! (k - 1)) - wb_buffer (b_karg st)) =
         unat (chunk_sz (b_karg st)) * (?n - k)"
    if small: "unat (chunk_sz (b_karg st)) * ?n < 2 ^ 32"
  proof -
    have n32: "?n < 2 ^ 32" using unsigned_less [of "nr_chunks (b_karg st)"] by simp
    with kn have k32: "k < 2 ^ 32" by simp
    then have uk: "unat (of_nat k :: u32) = k" by (simp add: unat_of_nat)
    have le: "(of_nat k :: u32) \<le> nr_chunks (b_karg st)" using kn uk by (simp add: word_le_nat_alt)
    have d: "unat (nr_chunks (b_karg st) - of_nat k) = ?n - k" using le uk by (simp add: unat_sub)
    have "unat (chunk_sz (b_karg st)) * (?n - k) \<le> unat (chunk_sz (b_karg st)) * ?n" by simp
    with small have "unat (chunk_sz (b_karg st)) * (?n - k) < 2 ^ 32" by linarith
    then have "unat (chunk_sz (b_karg st)) * unat (nr_chunks (b_karg st) - of_nat k) < 2 ^ LENGTH(32)"
      unfolding d by simp
    then have p: "unat (chunk_sz (b_karg st) * (nr_chunks (b_karg st) - of_nat k)) =
        unat (chunk_sz (b_karg st)) * (?n - k)"
      unfolding d [symmetric] by (simp only: unat_mult_lem)
    have e: "snd (?ws ! (k - 1)) - wb_buffer (b_karg st) =
        ucast (chunk_sz (b_karg st) * (nr_chunks (b_karg st) - of_nat k))"
      unfolding a1 by simp
    have "unat (chunk_sz (b_karg st)) * (?n - k) < 2 ^ 64"
      using \<open>unat (chunk_sz (b_karg st)) * (?n - k) < 2 ^ 32\<close> by simp
    then have "take_bit 64 (unat (chunk_sz (b_karg st)) * (?n - k)) =
        unat (chunk_sz (b_karg st)) * (?n - k)"
      by (simp add: take_bit_nat_eq_self)
    then show ?thesis unfolding e by (simp add: unsigned_ucast_eq p)
  qed
  from a1 a2 a3 kn show ?thesis by blast
qed

text \<open>
  In the same batch the second write-back chunk is chunk 3: it is copied to offset
  \<open>32768 * 3\<close> of the buffer, and its id stands at position 3.
\<close>

theorem writeback_buffer_from_end_witness:
  "nr_ram2gpu (b_karg (example_batch 5 32768 example_cache)) = 0 \<and>
   nr_ssd2gpu (b_karg (example_batch 5 32768 example_cache)) = 0 \<and>
   length (b_out (example_batch 5 32768 example_cache)) =
     unat (nr_chunks (b_karg (example_batch 5 32768 example_cache))) \<and>
   trace (b_world (example_batch 5 32768 example_cache)) = [] \<and>
   (\<exists>rv st'. memcpy_ssd2gpu_writeback (contiguous_env 1073741824 1000) example_mgmem [0, 1, 2, 3, 4]
            (example_batch 5 32768 example_cache) = Inr (rv, st') \<and>
      (1::nat) \<le> 2 \<and> 2 \<le> length (writeback_calls (trace (b_world st'))) \<and>
      map fst (writeback_calls (trace (b_world st'))) = [1, 3] \<and>
      snd (writeback_calls (trace (b_world st')) ! (2 - 1)) = 0x7fff00000000 + 32768 * 3 \<and>
      b_out st' ! (5 - 2) = 3)"
proof -
  let ?st = "example_batch 5 32768 example_cache"
  have h1: "nr_ram2gpu (b_karg ?st) = 0" by code_simp
  have h2: "nr_ssd2gpu (b_karg ?st) = 0" by code_simp
  have h3: "length (b_out ?st) = unat (nr_chunks (b_karg ?st))" by code_simp
  have h4: "trace (b_world ?st) = []" by code_simp
  have n: "unat (nr_chunks (b_karg ?st)) = 5" by code_simp
  have c: "wb_buffer (b_karg ?st) + ucast (chunk_sz (b_karg ?st) * (nr_chunks (b_karg ?st) - of_nat 2))
      = 0x7fff00000000 + 32768 * 3"
    by code_simp
  have e: "case memcpy_ssd2gpu_writeback (contiguous_env 1073741824 1000) example_mgmem
                  [0, 1, 2, 3, 4] ?st of
             Inl f \<Rightarrow> False
           | Inr (rv, st') \<Rightarrow> map fst (writeback_calls (trace (b_world st'))) = [1, 3]"
    by code_simp
  then obtain rv st' where
    run: "memcpy_ssd2gpu_writeback (contiguous_env 1073741824 1000) example_mgmem [0, 1, 2, 3, 4]
            ?st = Inr (rv, st')"
    and v: "map fst (writeback_calls (trace (b_world st'))) = [1, 3]"
    by (auto split: sum.splits prod.splits)
  from v have l: "length (writeback_calls (trace (b_world st'))) = 2"
    by (metis length_map length_Cons list.size(3) numeral_2_eq_2)
  have k1: "(1::nat) \<le> 2" by simp
  have k2: "2 \<le> length (writeback_calls (trace (b_world st')))" using l by simp
  from writeback_buffer_from_end [OF h1 h2 h3 h4 run k1 k2] have
    a: "snd (writeback_calls (trace (b_world st')) ! (2 - 1)) =
      wb_buffer (b_karg ?st) + ucast (chunk_sz (b_karg ?st) * (nr_chunks (b_karg ?st) - of_nat 2))"
    and b: "b_out st' ! (unat (nr_chunks (b_karg ?st)) - 2) =
      fst (writeback_calls (trace (b_world st')) ! (2 - 1))"
    by blast+
  have f: "fst (writeback_calls (trace (b_world st')) ! (2 - 1)) = 3"
    using v l by (metis One_nat_def diff_Suc_1 lessI nth_Cons_0 nth_Cons_Suc nth_map numeral_2_eq_2)
  from a c have a': "snd (writeback_calls (trace (b_world st')) ! (2 - 1)) = 0x7fff00000000 + 32768 * 3"
    by simp
  from b f n have b': "b_out st' ! (5 - 2) = 3" by simp
  have "\<exists>rv st'. memcpy_ssd2gpu_writeback (contiguous_env 1073741824 1000) example_mgmem [0, 1, 2, 3, 4]
            ?st = Inr (rv, st') \<and>
      (1::nat) \<le> 2 \<and> 2 \<le> length (writeback_calls (trace (b_world st'))) \<and>
      map fst (writeback_calls (trace (b_world st'))) = [1, 3] \<and>
      snd (writeback_calls (trace (b_world st')) ! (2 - 1)) = 0x7fff00000000 + 32768 * 3 \<and>
      b_out st' ! (5 - 2) = 3"
    by (intro exI [of _ rv] exI [of _ st'] conjI run k1 k2 v a' b')
  with h1 h2 h3 h4 show ?thesis by (intro conjI)
qed

section \<open>The file offset of a chunk\<close>

lemma unat_ucast_32_64: "unat (ucast (x :: u32) :: u64) = unat x"
proof -
  have "unat x < 2 ^ LENGTH(32)" by (rule unsigned_less)
  then have "unat x < 2 ^ 32" by simp
  then have "unat x < 2 ^ 64" by simp
  then show ?thesis by (simp add: unsigned_ucast_eq take_bit_nat_eq_self)
qed

lemma chunk_fpos_unat:
  assumes "unat (chunk_sz k) \<le> 131072"
  shows "unat (chunk_fpos k cid) =
    (if relseg_sz k = 0 then unat cid * unat (chunk_sz k)
     else (unat cid mod unat (relseg_sz k)) * unat (chunk_sz k))"
proof -
  have "unat cid < 2 ^ LENGTH(32)" by (rule unsigned_less)
  then have c32: "unat cid < 2 ^ 32" by simp
  have small: "a * unat (chunk_sz k) < 2 ^ 64" if "a < 2 ^ 32" for a :: nat
  proof -
    have "a * unat (chunk_sz k) \<le> 2 ^ 32 * 131072" using that assms by (intro mult_mono) simp_all
    also have "\<dots> < (2::nat) ^ 64" by simp
    finally show ?thesis .
  qed
  have m: "unat ((x :: u64) * ucast (chunk_sz k)) = unat x * unat (chunk_sz k)"
    if "unat x < 2 ^ 32" for x
  proof -
    have "unat x * unat (ucast (chunk_sz k) :: u64) < 2 ^ LENGTH(64)"
      using small [OF that] by (simp add: unat_ucast_32_64)
    then have "unat (x * ucast (chunk_sz k)) = unat x * unat (ucast (chunk_sz k) :: u64)"
      by (rule iffD1 [OF unat_mult_lem])
    then show ?thesis by (simp only: unat_ucast_32_64)
  qed
  show ?thesis
  proof (cases "relseg_sz k = 0")
    case True
    then show ?thesis using m [of "ucast cid"] c32 by (simp add: chunk_fpos_def unat_ucast_32_64)
  next
    case False
    have "unat ((ucast cid :: u64) mod ucast (relseg_sz k)) = unat cid mod unat (relseg_sz k)"
      by (simp add: unat_mod unat_ucast_32_64)
    moreover have "unat cid mod unat (relseg_sz k) < 2 ^ 32"
      using c32 by (meson le_less_trans mod_less_eq_dividend)
    ultimately show ?thesis using False m [of "(ucast cid :: u64) mod ucast (relseg_sz k)"]
      by (simp add: chunk_fpos_def)
  qed
qed

lemma chunk_fpos_aligned:
  assumes al: "chunk_sz k AND 4095 = 0" and sz: "unat (chunk_sz k) \<le> 131072"
  shows "chunk_fpos k cid AND (PAGE_CACHE_SIZE - 1) = 0"
proof -
  have m32: "(4095 :: u32) = mask 12" by (simp add: mask_eq_exp_minus_1)
  have m64: "(4095 :: u64) = mask 12" by (simp add: mask_eq_exp_minus_1)
  from al have "2 ^ 12 dvd unat (chunk_sz k)" unfolding m32 by (simp only: and_mask_dvd_nat)
  then have d: "2 ^ 12 dvd a * unat (chunk_sz k)" for a by (rule dvd_mult)
  have "2 ^ 12 dvd unat (chunk_fpos k cid)"
  proof (cases "relseg_sz k = 0")
    case True
    have "unat (chunk_fpos k cid) = unat cid * unat (chunk_sz k)"
      unfolding chunk_fpos_unat [OF sz] using True by simp
    then show ?thesis by (simp only: d)
  next
    case False
    have "unat (chunk_fpos k cid) = (unat cid mod unat (relseg_sz k)) * unat (chunk_sz k)"
      unfolding chunk_fpos_unat [OF sz] using False by simp
    then show ?thesis by (simp only: d)
  qed
  then have "chunk_fpos k cid AND mask 12 = 0" by (simp only: and_mask_dvd_nat)
  then show ?thesis by (simp add: PAGE_CACHE_SIZE_def m64)
qed

lemma writeback_chunk_beyond_eof:
  assumes "chunk_sz (b_karg st) AND 4095 = 0" "unat (chunk_sz (b_karg st)) \<le> 131072"
    and "i_size env < chunk_fpos (b_karg st) cid"
  shows "writeback_chunk env mg nrp th cid dest st = Inr (- ERANGE, dest, st)"
  using chunk_fpos_aligned [OF assms(1,2), of cid] assms(3)
  by (simp add: writeback_chunk_def Let_def)

text \<open>
  Claim C8. Take a batch that passes the checks on the chunk size and the destination
  range, and a chunk id \<open>cid\<close> of its list such that the chunks before it were processed
  without error. The file offset computed for that chunk is the number
  \<open>cid * chunk_sz\<close> when \<open>relseg_sz\<close> is 0 and \<open>(cid mod relseg_sz) * chunk_sz\<close>
  otherwise (no wrap-around: it is computed in 64 bits); and when that offset is beyond
  the size of the file, the batch returns \<open>-ERANGE\<close> there.
\<close>

theorem chunk_offset_and_eof_check:
  assumes "chunk_ids_in = pre @ cid # post"
    and "length chunk_ids_in = unat (nr_chunks (b_karg st))"
    and "chunk_sz (b_karg st) AND 4095 = 0"
    and "4096 \<le> unat (chunk_sz (b_karg st))"
    and "unat (chunk_sz (b_karg st)) \<le> 131072"
    and "\<not> map_length mg < map_offset mg + offset (b_karg st) +
            ucast (nr_chunks (b_karg st) * chunk_sz (b_karg st))"
    and "chunk_loop env mg (drop_bit PAGE_CACHE_SHIFT (chunk_sz (b_karg st)))
           (drop_bit PAGE_CACHE_SHIFT (chunk_sz (b_karg st)) div 2) pre
           (map_offset mg + offset (b_karg st)) st = Inr (0, dest1, st1)"
  shows "unat (chunk_fpos (b_karg st1) cid) =
      (if relseg_sz (b_karg st) = 0 then unat cid * unat (chunk_sz (b_karg st))
       else (unat cid mod unat (relseg_sz (b_karg st))) * unat (chunk_sz (b_karg st))) \<and>
    (i_size env < chunk_fpos (b_karg st1) cid \<longrightarrow>
       memcpy_ssd2gpu_writeback env mg chunk_ids_in st = Inr (- ERANGE, st1))"
proof -
  let ?k = "b_karg st"
  let ?nrp = "drop_bit PAGE_CACHE_SHIFT (chunk_sz ?k)"
  from chunk_loop_consts [OF assms(7)] have
    c: "chunk_sz (b_karg st1) = chunk_sz ?k" "relseg_sz (b_karg st1) = relseg_sz ?k" by simp_all
  have f: "unat (chunk_fpos (b_karg st1) cid) =
      (if relseg_sz ?k = 0 then unat cid * unat (chunk_sz ?k)
       else (unat cid mod unat (relseg_sz ?k)) * unat (chunk_sz ?k))"
    using chunk_fpos_unat [of "b_karg st1" cid] assms(5) c by simp
  have r: "memcpy_ssd2gpu_writeback env mg chunk_ids_in st = Inr (- ERANGE, st1)"
    if eof: "i_size env < chunk_fpos (b_karg st1) cid"
  proof -
    have step: "writeback_chunk env mg ?nrp (?nrp div 2) cid dest1 st1 = Inr (- ERANGE, dest1, st1)"
      by (rule writeback_chunk_beyond_eof) (use assms(3,5) c eof in simp_all)
    have loop: "chunk_loop env mg ?nrp (?nrp div 2) (pre @ cid # post)
        (map_offset mg + offset ?k) st = Inr (- ERANGE, dest1, st1)"
      by (simp add: chunk_loop_append assms(7) step ERANGE_def)
    have tk: "take (unat (nr_chunks ?k)) chunk_ids_in = pre @ cid # post"
      using assms(1,2) by simp
    have s1: "\<not> (ucast (chunk_sz ?k) :: u64) < PAGE_CACHE_SIZE"
      using assms(4) by (simp add: word_less_nat_alt unat_ucast_32_64 PAGE_CACHE_SIZE_def)
    have s2: "\<not> (ucast (chunk_sz ?k) :: u64) > STROM_DMA_SSD2GPU_MAXLEN"
      using assms(5) by (simp add: word_less_nat_alt unat_ucast_32_64 STROM_DMA_SSD2GPU_MAXLEN_def)
    show ?thesis
      using assms(2,3,6) s1 s2
      by (simp add: memcpy_ssd2gpu_writeback_def Let_def tk loop ERANGE_def)
  qed
  from f r show ?thesis by blast
qed

text \<open>
  A file of 100000 bytes and the chunks 0, 1 and 9 of 32 KiB: the first two are
  processed, the offset of the third is \<open>9 * 32768\<close>, and the batch returns \<open>-ERANGE\<close>.
\<close>

theorem chunk_offset_and_eof_check_witness:
  "[0, 1, 9] = [0, 1] @ 9 # ([] :: u32 list) \<and>
   length [0, 1, 9 :: u32] = unat (nr_chunks (b_karg (example_batch 3 32768 (\<lambda>index. None)))) \<and>
   chunk_sz (b_karg (example_batch 3 32768 (\<lambda>index. None))) AND 4095 = 0 \<and>
   4096 \<le> unat (chunk_sz (b_karg (example_batch 3 32768 (\<lambda>index. None)))) \<and>
   unat (chunk_sz (b_karg (example_batch 3 32768 (\<lambda>index. None)))) \<le> 131072 \<and>
   \<not> map_length example_mgmem <
       map_offset example_mgmem + offset (b_karg (example_batch 3 32768 (\<lambda>index. None))) +
       ucast (nr_chunks (b_karg (example_batch 3 32768 (\<lambda>index. None))) *
              chunk_sz (b_karg (example_batch 3 32768 (\<lambda>index. None)))) \<and>
   (\<exists>dest1 st1.
      chunk_loop (contiguous_env 100000 1000) example_mgmem
        (drop_bit PAGE_CACHE_SHIFT (chunk_sz (b_karg (example_batch 3 32768 (\<lambda>index. None)))))
        (drop_bit PAGE_CACHE_SHIFT (chunk_sz (b_karg (example_batch 3 32768 (\<lambda>index. None)))) div 2)
        [0, 1]
        (map_offset example_mgmem + offset (b_karg (example_batch 3 32768 (\<lambda>index. None))))
        (example_batch 3 32768 (\<lambda>index. None)) = Inr (0, dest1, st1) \<and>
      unat (chunk_fpos (b_karg st1) 9) = 9 * 32768 \<and>
      i_size (contiguous_env 100000 1000) < chunk_fpos (b_karg st1) 9 \<and>
      memcpy_ssd2gpu_writeback (contiguous_env 100000 1000) example_mgmem [0, 1, 9]
        (example_batch 3 32768 (\<lambda>index. None)) = Inr (- ERANGE, st1))"
proof -
  let ?st = "example_batch 3 32768 (\<lambda>index. None)"
  let ?env = "contiguous_env 100000 1000"
  have h1: "[0, 1, 9] = [0, 1] @ 9 # ([] :: u32 list)" by simp
  have h2: "length [0, 1, 9 :: u32] = unat (nr_chunks (b_karg ?st))" by code_simp
  have h3: "chunk_sz (b_karg ?st) AND 4095 = 0" by code_simp
  have h4: "4096 \<le> unat (chunk_sz (b_karg ?st))" by (simp add: ex_defs)
  have h5: "unat (chunk_sz (b_karg ?st)) \<le> 131072" by (simp add: ex_defs)
  have h6: "\<not> map_length example_mgmem < map_offset example_mgmem + offset (b_karg ?st) +
       ucast (nr_chunks (b_karg ?st) * chunk_sz (b_karg ?st))" by code_simp
  have e: "case chunk_loop ?env example_mgmem
        (drop_bit PAGE_CACHE_SHIFT (chunk_sz (b_karg ?st)))
        (drop_bit PAGE_CACHE_SHIFT (chunk_sz (b_karg ?st)) div 2) [0, 1]
        (map_offset example_mgmem + offset (b_karg ?st)) ?st of
      Inl f \<Rightarrow> False | Inr (rv, dest1, st1) \<Rightarrow> rv = 0"
    by code_simp
  then obtain dest1 st1 where h7: "chunk_loop ?env example_mgmem
        (drop_bit PAGE_CACHE_SHIFT (chunk_sz (b_karg ?st)))
        (drop_bit PAGE_CACHE_SHIFT (chunk_sz (b_karg ?st)) div 2) [0, 1]
        (map_offset example_mgmem + offset (b_karg ?st)) ?st = Inr (0, dest1, st1)"
    by (auto split: sum.splits prod.splits)
  have v: "relseg_sz (b_karg ?st) = 0" "unat (chunk_sz (b_karg ?st)) = 32768"
    "unat (i_size ?env) = 100000" "unat (9 :: u32) = 9"
    by (simp_all add: ex_defs)
  note t = chunk_offset_and_eof_check [OF h1 h2 h3 h4 h5 h6 h7]
  from t have f: "unat (chunk_fpos (b_karg st1) 9) = 9 * 32768" unfolding v by simp
  then have lt: "i_size ?env < chunk_fpos (b_karg st1) 9"
    unfolding word_less_nat_alt v by simp
  with t have r: "memcpy_ssd2gpu_writeback ?env example_mgmem [0, 1, 9] ?st = Inr (- ERANGE, st1)"
    by blast
  have "\<exists>dest1 st1.
      chunk_loop ?env example_mgmem
        (drop_bit PAGE_CACHE_SHIFT (chunk_sz (b_karg ?st)))
        (drop_bit PAGE_CACHE_SHIFT (chunk_sz (b_karg ?st)) div 2) [0, 1]
        (map_offset example_mgmem + offset (b_karg ?st)) ?st = Inr (0, dest1, st1) \<and>
      unat (chunk_fpos (b_karg st1) 9) = 9 * 32768 \<and>
      i_size ?env < chunk_fpos (b_karg st1) 9 \<and>
      memcpy_ssd2gpu_writeback ?env example_mgmem [0, 1, 9] ?st = Inr (- ERANGE, st1)"
    by (intro exI [of _ dest1] exI [of _ st1] conjI h7 f lt r)
  with h1 h2 h3 h4 h5 h6 show ?thesis by (intro conjI)
qed

section \<open>A cold batch larger than one transfer\<close>

text \<open>
  The loops of the scheduler, unfolded one iteration at a time when the count is a
  numeral.
\<close>

lemma submit_dma_loop_numeral:
  "submit_dma_loop env mg (numeral k) fpos cur st =
     (case submit_dma_page env mg fpos cur st of
        Inl f \<Rightarrow> Inl f
      | Inr (retval, st') \<Rightarrow>
          if retval \<noteq> 0 then Inr (retval, st')
          else submit_dma_loop env mg (pred_numeral k) (fpos + PAGE_CACHE_SIZE)
                 (cur + PAGE_CACHE_SIZE) st')"
  by (simp only: numeral_eq_Suc submit_dma_loop.simps)

lemma score_loop_numeral:
  "score_loop (numeral n) j k threshold (score, d, w) =
     (if length (file_pages d) \<le> j then Inl OutOfBounds
      else
        let (fpage, w') = find_lock_page w (scast k);
            d' = d\<lparr>file_pages := (file_pages d)[j := fpage]\<rparr>;
            score' = (case fpage of
                        None \<Rightarrow> score
                      | Some pg \<Rightarrow> score + (if pg_dirty pg then threshold + 1 else 1))
        in score_loop (pred_numeral n) (Suc j) (k + 1) threshold (score', d', w'))"
  by (simp only: numeral_eq_Suc score_loop.simps)

lemma build_sg_numeral:
  "build_sg pages page_sz (numeral n) idx offs total_nbytes sg =
     (if total_nbytes = 0 then Inr (total_nbytes, sg)
      else if idx < 0 \<or> int (length pages) \<le> idx then Inl OutOfBounds
      else
        let base_addr = pages ! nat idx;
            len = (ucast (min total_nbytes (page_sz - offs)) :: u32)
        in build_sg pages page_sz (pred_numeral n) (idx + 1) 0 (total_nbytes - scast len)
             (sg @ [(base_addr + offs, len)]))"
  by (simp only: numeral_eq_Suc build_sg.simps)

lemma strom_get_block_contiguous:
  "strom_get_block (contiguous_env fsize b0) iblock = (0, b0 + iblock)"
  by (simp add: strom_get_block_def contiguous_env_def)

lemma contiguous_env_sel:
  "i_size (contiguous_env fsize b0) = fsize"
  "kmalloc_iod (contiguous_env fsize b0) n = True"
  "nvme_submit_async_read_cmd (contiguous_env fsize b0) src nb sg = 0"
  "read_mapping_page (contiguous_env fsize b0) ix = None"
  "fault_in_pages_writeable (contiguous_env fsize b0) ua = 0"
  "copy_to_user_inatomic (contiguous_env fsize b0) ua ix = 0"
  "copy_to_user (contiguous_env fsize b0) ua ix = 0"
  by (simp_all add: contiguous_env_def)

lemmas sched_unfold = memcpy_ssd2gpu_writeback_def writeback_chunk_def chunk_fpos_def
  uu_memcpy_ssd2gpu_submit_dma_def submit_dma_page_def submit_ssd2gpu_memcpy_def
  find_lock_page_def unlock_pages_def submit_dma_loop_numeral score_loop_numeral build_sg_numeral
  example_karg_def example_mgmem_def example_page_table_def
  PAGE_CACHE_SHIFT_def PAGE_CACHE_SIZE_def STROM_DMA_SSD2GPU_MAXLEN_def EINVAL_def ERANGE_def
  Let_def word_sless_alt

text \<open>
  Claim C5, amended. Take the mapping of 1 MiB in device pages of 64 KiB
  (\<open>example_mgmem\<close>) and a batch of the 5 chunks 0..4 of 32 KiB to its start. Let the task
  be fresh with the geometry \<open>strom_create_dma_task\<close> gives it (lines 919-925) for a
  block size of \<open>2 ^ s\<close> bytes, 512 to 4096: \<open>max_nblocks\<close> is
  \<open>STROM_DMA_SSD2GPU_MAXLEN >> s\<close>, the blocks of 128 KiB. Let the file hold the five
  chunks, its logical block \<open>i\<close> be the physical block \<open>b0 + i\<close>, none of the 40 pages of
  the chunks be in the page cache, and every allocation and submission succeed. Then
  the call returns 0 with \<open>nr_ssd2gpu = 5\<close> and \<open>nr_ram2gpu = 0\<close>, and it hands exactly
  two requests to the device, not one: the first for the 128 KiB of chunks 0..3, from
  block \<open>b0\<close> to the offset 0 of the mapping, the second for the 32 KiB of chunk 4, from
  the block after them to the offset 131072. The 160 KiB of the batch are more than one
  request may carry, and line 1333 ends the run at \<open>max_nblocks\<close>.
\<close>

theorem cold_batch_two_transfers:
  assumes s: "s = 9 \<or> s = 10 \<or> s = 11 \<or> s = 12"
    and geo: "blocksz_shift d = of_nat s" "blocksz d = 2 ^ s"
      "max_nblocks d = ucast (drop_bit s STROM_DMA_SSD2GPU_MAXLEN)" "nr_blocks d = 0"
      "length (file_pages d) = 32" "length out0 = 5"
    and blk: "\<And>iblock. strom_get_block env iblock = (0, b0 + iblock)"
    and km: "\<And>n. kmalloc_iod env n"
    and nv: "\<And>src n sg. nvme_submit_async_read_cmd env src n sg = 0"
    and fsize: "5 * 32768 \<le> i_size env"
    and cold: "\<And>index. index < 40 \<Longrightarrow> pc index = None"
  shows "\<exists>st'. memcpy_ssd2gpu_writeback env example_mgmem [0, 1, 2, 3, 4]
            \<lparr>b_karg = example_karg 5 32768, b_dtask = d, b_out = out0,
             b_world = \<lparr>page_cache = pc, locked_pages = [], trace = []\<rparr>\<rparr> = Inr (0, st') \<and>
      nvme_submits (trace (b_world st')) =
        [(b0, 32 * 2 ^ (12 - s), 0, 0),
         (b0 + 32 * 2 ^ (12 - s), 8 * 2 ^ (12 - s), 131072, 0)] \<and>
      nr_dma_submit (b_karg st') = 2 \<and> nr_dma_blocks (b_karg st') = 40 * 2 ^ (12 - s) \<and>
      nr_ssd2gpu (b_karg st') = 5 \<and> nr_ram2gpu (b_karg st') = 0"
proof -
  have sz: "\<not> i_size env < 32768" "\<not> i_size env < 65536" "\<not> i_size env < 98304"
    "\<not> i_size env < 131072"
    using fsize by (simp_all add: word_le_nat_alt word_less_nat_alt)
  from s show ?thesis
  proof (elim disjE)
    assume s: "s = 9"
    show ?thesis
      unfolding s using geo [unfolded s]
      by (simp add: sched_unfold blk km nv sz cold
           cong: sum.case_cong_weak prod.case_cong_weak option.case_cong_weak)
  next
    assume s: "s = 10"
    show ?thesis
      unfolding s using geo [unfolded s]
      by (simp add: sched_unfold blk km nv sz cold
           cong: sum.case_cong_weak prod.case_cong_weak option.case_cong_weak)
  next
    assume s: "s = 11"
    show ?thesis
      unfolding s using geo [unfolded s]
      by (simp add: sched_unfold blk km nv sz cold
           cong: sum.case_cong_weak prod.case_cong_weak option.case_cong_weak)
  next
    assume s: "s = 12"
    show ?thesis
      unfolding s using geo [unfolded s]
      by (simp add: sched_unfold blk km nv sz cold
           cong: sum.case_cong_weak prod.case_cong_weak option.case_cong_weak)
  qed
qed

text \<open>
  The theorem at a file of 1 GiB in blocks of 512 bytes that starts at block 5000: the
  two requests are for 256 and for 64 blocks.
\<close>

theorem cold_batch_two_transfers_witness:
  "\<exists>st'. memcpy_ssd2gpu_writeback (contiguous_env 1073741824 5000) example_mgmem [0, 1, 2, 3, 4]
          \<lparr>b_karg = example_karg 5 32768,
           b_dtask = example_dtask\<lparr>blocksz := 512, blocksz_shift := 9, max_nblocks := 256\<rparr>,
           b_out = [0, 0, 0, 0, 0],
           b_world = \<lparr>page_cache = (\<lambda>index. None), locked_pages = [], trace = []\<rparr>\<rparr>
        = Inr (0, st') \<and>
     nvme_submits (trace (b_world st')) = [(5000, 256, 0, 0), (5256, 64, 131072, 0)] \<and>
     nr_dma_submit (b_karg st') = 2 \<and> nr_dma_blocks (b_karg st') = 320 \<and>
     nr_ssd2gpu (b_karg st') = 5 \<and> nr_ram2gpu (b_karg st') = 0"
  using cold_batch_two_transfers [of 9
      "example_dtask\<lparr>blocksz := 512, blocksz_shift := 9, max_nblocks := 256\<rparr>"
      "[0, 0, 0, 0, 0]" "contiguous_env 1073741824 5000" 5000 "\<lambda>index. None"]
  by (simp add: strom_get_block_contiguous contiguous_env_sel example_dtask_def
        STROM_DMA_SSD2GPU_MAXLEN_def)

text \<open>
  The scenario of the specification itself, in blocks of 4096 bytes from block 1000: the
  device receives two requests, of 32 and of 8 blocks, and \<open>nr_dma_submit\<close> is 2.
\<close>

theorem cold_batch_not_one_transfer:
  "\<exists>st'. memcpy_ssd2gpu_writeback (contiguous_env 1073741824 1000) example_mgmem [0, 1, 2, 3, 4]
          (example_batch 5 32768 (\<lambda>index. None)) = Inr (0, st') \<and>
     nvme_submits (trace (b_world st')) = [(1000, 32, 0, 0), (1032, 8, 131072, 0)] \<and>
     length (nvme_submits (trace (b_world st'))) = 2 \<and>
     nr_dma_submit (b_karg st') = 2 \<and>
     nr_ssd2gpu (b_karg st') = 5 \<and> nr_ram2gpu (b_karg st') = 0"
  by (simp add: sched_unfold strom_get_block_contiguous contiguous_env_sel example_batch_def
        example_dtask_def
       cong: sum.case_cong_weak prod.case_cong_weak option.case_cong_weak)

section \<open>The request submitted after the last chunk\<close>

lemma strom_get_block_refusing:
  "strom_get_block (refusing_env fsize b0 e) iblock = (0, b0 + iblock)"
  by (simp add: strom_get_block_def refusing_env_def contiguous_env_def)

lemma refusing_env_sel:
  "i_size (refusing_env fsize b0 e) = fsize"
  "kmalloc_iod (refusing_env fsize b0 e) n = True"
  "nvme_submit_async_read_cmd (refusing_env fsize b0 e) src nb sg = e"
  by (simp_all add: refusing_env_def contiguous_env_def)

text \<open>
  A refusal inside the chunk loop is returned (lines 1347-1352 and 1462-1463): in the
  batch of five cold chunks the run of chunks 0..3 is submitted while chunk 4 is
  processed, and the call returns what the queue answered.
\<close>

lemma refusal_in_loop_returned:
  assumes "e \<noteq> 0" and "131072 \<le> fsize"
  shows "\<exists>st'. memcpy_ssd2gpu_writeback (refusing_env fsize b0 e) example_mgmem [0, 1, 2, 3, 4]
            (example_batch 5 32768 (\<lambda>index. None)) = Inr (e, st') \<and>
      nvme_submits (trace (b_world st')) = [(b0, 32, 0, e)]"
proof -
  have sz: "\<not> fsize < 32768" "\<not> fsize < 65536" "\<not> fsize < 98304" "\<not> fsize < 131072"
    using assms(2) by (simp_all add: word_le_nat_alt word_less_nat_alt)
  show ?thesis
    using assms(1)
    by (simp add: sched_unfold strom_get_block_refusing refusing_env_sel example_batch_def
          example_dtask_def sz
         cong: sum.case_cong_weak prod.case_cong_weak option.case_cong_weak)
qed

text \<open>
  Claim C6. The claim does not hold for the request that line 1470 submits after the
  last chunk: the value \<open>submit_ssd2gpu_memcpy\<close> returns there is dropped. For a batch of
  one cold chunk of 32 KiB the only request is that one; whatever \<open>e\<close> the queue answers,
  also an error such as \<open>-ENOMEM\<close>, \<open>memcpy_ssd2gpu_writeback\<close> returns 0 and counts the
  request in \<open>nr_dma_submit\<close> and the chunk in \<open>nr_ssd2gpu\<close>.
\<close>

theorem final_submit_failure_dropped:
  "\<exists>st'. memcpy_ssd2gpu_writeback (refusing_env fsize b0 e) example_mgmem [0]
          (example_batch 1 32768 (\<lambda>index. None)) = Inr (0, st') \<and>
     nvme_submits (trace (b_world st')) = [(b0, 8, 0, e)] \<and>
     nr_dma_submit (b_karg st') = 1 \<and> nr_dma_blocks (b_karg st') = 8 \<and>
     nr_ssd2gpu (b_karg st') = 1 \<and> nr_ram2gpu (b_karg st') = 0 \<and> b_out st' = [0]"
  by (simp add: sched_unfold strom_get_block_refusing refusing_env_sel example_batch_def
        example_dtask_def
       cong: sum.case_cong_weak prod.case_cong_weak option.case_cong_weak)

text \<open>
  The theorem for a queue that answers \<open>-ENOMEM\<close>, on a file of 1 GiB that starts at
  block 1000: the refusal is in the trace, and the call returns 0.
\<close>

theorem final_submit_failure_dropped_witness:
  "\<exists>st'. memcpy_ssd2gpu_writeback (refusing_env 1073741824 1000 (- ENOMEM)) example_mgmem [0]
          (example_batch 1 32768 (\<lambda>index. None)) = Inr (0, st') \<and>
     nvme_submits (trace (b_world st')) = [(1000, 8, 0, - ENOMEM)] \<and>
     - ENOMEM \<noteq> (0 :: u32) \<and>
     nr_dma_submit (b_karg st') = 1 \<and> nr_ssd2gpu (b_karg st') = 1"
  using final_submit_failure_dropped [of 1073741824 1000 "- ENOMEM"]
  by (auto simp: ENOMEM_def)

section \<open>The page index of the scoring loop\<close>

text \<open>
  Claim C7. The claim does not hold for a chunk that starts 8 TiB or more into the
  file: line 1408 keeps the page index \<open>fpos >> PAGE_CACHE_SHIFT\<close> in the \<open>int k\<close>, so from
  \<open>2 ^ 31\<close> pages on the loop probes other pages than the chunk's. The chunk with id
  \<open>2 ^ 28\<close> of 32 KiB chunks starts at \<open>2 ^ 43\<close>; all its 8 pages are in the page cache
  and dirty (\<open>far_cache\<close>), the file is 16 TiB long, and yet the chunk goes down the
  direct path: no write-back call, \<open>nr_ram2gpu = 0\<close>, and one request to the device for
  its 8 blocks, wherever the file starts on the device (\<open>b0\<close>).
\<close>

theorem dirty_chunk_routed_direct:
  "\<exists>st'. memcpy_ssd2gpu_writeback (contiguous_env 17592186044416 b0) example_mgmem [268435456]
          (example_batch 1 32768 far_cache) = Inr (0, st') \<and>
     chunk_fpos (example_karg 1 32768) 268435456 = 8796093022208 \<and>
     map (\<lambda>j. far_cache (drop_bit PAGE_CACHE_SHIFT 8796093022208 + j)) [0, 1, 2, 3, 4, 5, 6, 7] =
       [Some True, Some True, Some True, Some True, Some True, Some True, Some True, Some True] \<and>
     direct_ids (trace (b_world st')) = [268435456] \<and>
     writeback_calls (trace (b_world st')) = [] \<and>
     nvme_submits (trace (b_world st')) = [(b0 + 2147483648, 8, 0, 0)] \<and>
     nr_ssd2gpu (b_karg st') = 1 \<and> nr_ram2gpu (b_karg st') = 0"
  by (simp add: sched_unfold strom_get_block_contiguous contiguous_env_sel example_batch_def
        example_dtask_def far_cache_def
       cong: sum.case_cong_weak prod.case_cong_weak option.case_cong_weak)

text \<open>The theorem for a file that starts at block 1000.\<close>

theorem dirty_chunk_routed_direct_witness:
  "\<exists>st'. memcpy_ssd2gpu_writeback (contiguous_env 17592186044416 1000) example_mgmem [268435456]
          (example_batch 1 32768 far_cache) = Inr (0, st') \<and>
     far_cache (drop_bit PAGE_CACHE_SHIFT (chunk_fpos (example_karg 1 32768) 268435456)) =
       Some True \<and>
     direct_ids (trace (b_world st')) = [268435456] \<and>
     writeback_calls (trace (b_world st')) = [] \<and>
     nvme_submits (trace (b_world st')) = [(2147484648, 8, 0, 0)] \<and>
     nr_ssd2gpu (b_karg st') = 1 \<and> nr_ram2gpu (b_karg st') = 0"
  using dirty_chunk_routed_direct [of 1000]
  by (auto simp: far_cache_def PAGE_CACHE_SHIFT_def)

section \<open>The offset into the write-back buffer\<close>

lemma writeback_loop_numeral:
  "writeback_loop env fp_index (numeral n) i dest_uaddr st =
     (case writeback_page env fp_index i dest_uaddr st of
        Inl f \<Rightarrow> Inl f
      | Inr (retval, st') \<Rightarrow>
          if retval \<noteq> 0 then Inr (retval, st')
          else writeback_loop env fp_index (pred_numeral n) (Suc i) (dest_uaddr + PAGE_CACHE_SIZE) st')"
  by (simp only: numeral_eq_Suc writeback_loop.simps)

text \<open>The batch of 262145 chunks of 16 KiB with every page cached.\<close>

lemma large_count:
  assumes "i < 262145"
  shows "unat (262144 - of_nat i :: u32) = 262144 - i"
proof -
  have "(262144 :: u32) - of_nat i = of_nat (262144 - i)"
    using assms by (simp add: of_nat_diff)
  also have "unat (of_nat (262144 - i) :: u32) = 262144 - i"
    by (simp add: unat_of_nat)
  finally show ?thesis .
qed

lemma large_fpos:
  assumes "i < 262145"
  shows "unat (chunk_fpos ((large_karg wb)\<lparr>nr_ram2gpu := r\<rparr>) (of_nat i)) = i * 16384"
proof -
  have "unat (of_nat i :: u32) = i" using assms by (simp add: unat_of_nat)
  then show ?thesis
    by (simp add: chunk_fpos_unat large_karg_def example_karg_def)
qed

text \<open>
  One chunk of that batch: it goes down the write-back path, and its four pages are
  copied to the destination of line 1424.
\<close>

lemma large_step:
  assumes i: "i < 262145" and inv: "large_inv wb i st"
  shows "\<exists>st'. writeback_chunk (contiguous_env 8589934592 blk) large_mgmem 4 2 (of_nat i) dest st =
           Inr (0, dest, st') \<and>
         large_inv wb (Suc i) st' \<and>
         trace (b_world st') = trace (b_world st) @ large_events wb i"
proof -
  from inv have k: "b_karg st = (large_karg wb)\<lparr>nr_ram2gpu := of_nat i\<rparr>"
    and lo: "length (b_out st) = 262145"
    and lf: "length (file_pages (b_dtask st)) = 32"
    and nb: "nr_blocks (b_dtask st) = 0"
    and pc: "page_cache (b_world st) = resident_cache"
    by (simp_all add: large_inv_def)
  let ?fpos = "chunk_fpos (b_karg st) (of_nat i)"
  have al: "?fpos AND (PAGE_CACHE_SIZE - 1) = 0"
    by (rule chunk_fpos_aligned) (simp_all add: k large_karg_def example_karg_def)
  have "unat ?fpos \<le> unat (8589934592 :: u64)"
    unfolding k large_fpos [OF i] using i by simp
  then have eof: "\<not> 8589934592 < ?fpos" by (simp add: word_less_nat_alt)
  from lf have ne: "file_pages (b_dtask st) \<noteq> []" by auto
  have ix: "\<not> 262145 \<le> unat (262144 - of_nat i :: u32)"
    unfolding large_count [OF i] by simp
  show ?thesis
    apply (simp add: writeback_chunk_def al eof contiguous_env_sel Let_def)
    apply (simp add: score_loop_numeral find_lock_page_def pc lf resident_cache_def 
       cong: sum.case_cong_weak prod.case_cong_weak option.case_cong_weak)
    apply (simp add: Let_def uu_memcpy_ssd2gpu_writeback_def writeback_loop_numeral writeback_page_def
        contiguous_env_sel lf lo k large_karg_def example_karg_def ix ne word_sless_alt PAGE_CACHE_SIZE_def
        unlock_pages_def large_inv_def nb pc resident_cache_def chunk_fpos_def large_events_def
       cong: sum.case_cong_weak prod.case_cong_weak option.case_cong_weak)
    apply (simp add: add.commute)
    done
qed

lemma large_loop:
  assumes "m \<le> 262145" and "i \<le> m" and "large_inv wb i st"
  shows "\<exists>st' t. chunk_loop (contiguous_env 8589934592 blk) large_mgmem 4 2 (map of_nat [i..<m]) dest st =
           Inr (0, dest, st') \<and>
         large_inv wb m st' \<and> trace (b_world st') = trace (b_world st) @ t"
  using assms
proof (induction "m - i" arbitrary: i st)
  case 0
  then have "i = m" by simp
  with "0.prems"(3) show ?case by simp
next
  case (Suc n)
  then have lt: "i < m" and i: "i < 262145" by simp_all
  from large_step [OF i Suc.prems(3), of blk dest] obtain st1 t1 where
    s1: "writeback_chunk (contiguous_env 8589934592 blk) large_mgmem 4 2 (of_nat i) dest st =
           Inr (0, dest, st1)"
    and inv1: "large_inv wb (Suc i) st1"
    and t1: "trace (b_world st1) = trace (b_world st) @ t1" by blast
  from Suc.hyps(2) have n: "n = m - Suc i" by simp
  from lt have le: "Suc i \<le> m" by simp
  from Suc.hyps(1) [OF n Suc.prems(1) le inv1] obtain st' t where
    r: "chunk_loop (contiguous_env 8589934592 blk) large_mgmem 4 2 (map of_nat [Suc i..<m]) dest st1 =
          Inr (0, dest, st')"
    and inv': "large_inv wb m st'"
    and t: "trace (b_world st') = trace (b_world st1) @ t" by blast
  have "chunk_loop (contiguous_env 8589934592 blk) large_mgmem 4 2 (map of_nat [i..<m]) dest st =
        Inr (0, dest, st')"
    unfolding upt_conv_Cons [OF lt] by (simp add: s1 r)
  with inv' t t1 show ?case by simp
qed

lemma large_run:
  assumes inv: "large_inv wb 0 st" and n: "0 < n" "n < 262145"
  shows "\<exists>st' t. chunk_loop (contiguous_env 8589934592 blk) large_mgmem 4 2
             (map of_nat [0..<Suc n]) dest st = Inr (0, dest, st') \<and>
         large_inv wb (Suc n) st' \<and>
         trace (b_world st') = trace (b_world st) @ large_events wb 0 @ t @ large_events wb n"
proof -
  from large_step [OF _ inv, of blk dest] obtain st1 where
    s1: "writeback_chunk (contiguous_env 8589934592 blk) large_mgmem 4 2 (of_nat 0) dest st =
           Inr (0, dest, st1)"
    and inv1: "large_inv wb (Suc 0) st1"
    and t1: "trace (b_world st1) = trace (b_world st) @ large_events wb 0" by auto
  from n have le: "n \<le> 262145" "Suc 0 \<le> n" by simp_all
  from large_loop [OF le inv1, of blk dest] obtain st2 t where
    s2: "chunk_loop (contiguous_env 8589934592 blk) large_mgmem 4 2 (map of_nat [Suc 0..<n]) dest st1 =
           Inr (0, dest, st2)"
    and inv2: "large_inv wb n st2"
    and t2: "trace (b_world st2) = trace (b_world st1) @ t" by blast
  from large_step [OF n(2) inv2, of blk dest] obtain st3 where
    s3: "writeback_chunk (contiguous_env 8589934592 blk) large_mgmem 4 2 (of_nat n) dest st2 =
           Inr (0, dest, st3)"
    and inv3: "large_inv wb (Suc n) st3"
    and t3: "trace (b_world st3) = trace (b_world st2) @ large_events wb n" by blast
  have l: "[0..<Suc n] = 0 # [Suc 0..<n] @ [n]"
    using n(1) by (simp add: upt_conv_Cons)
  have "chunk_loop (contiguous_env 8589934592 blk) large_mgmem 4 2 (map of_nat [0..<Suc n]) dest st =
        Inr (0, dest, st3)"
    unfolding l using s1 s2 s3 by (simp add: chunk_loop_append)
  with inv3 t1 t2 t3 show ?thesis by simp
qed

lemma large_ids_length: "length large_ids = 262145"
  by (simp only: large_ids_def length_map length_upt diff_zero)

lemma large_ids_upt: "large_ids = map of_nat [0..<Suc 262144]"
proof -
  have e: "(262145 :: nat) = Suc 262144" by simp
  show ?thesis unfolding large_ids_def e ..
qed

lemma large_batch_inv: "large_inv wb 0 (large_batch wb)"
  by (simp add: large_inv_def large_batch_def example_dtask_def large_karg_def example_karg_def)

lemma large_events_first:
  "large_events wb 0 =
     [CallWriteback 0 0 wb, CopyToUser wb (Page 0 False), CopyToUser (wb + 4096) (Page 1 False),
      CopyToUser (wb + 8192) (Page 2 False), CopyToUser (wb + 12288) (Page 3 False)]"
  by (simp add: large_events_def chunk_fpos_def large_karg_def example_karg_def
        PAGE_CACHE_SHIFT_def Let_def)

lemma large_events_last:
  "large_events wb 262144 =
     [CallWriteback 262144 4294967296 wb, CopyToUser wb (Page 1048576 False),
      CopyToUser (wb + 4096) (Page 1048577 False), CopyToUser (wb + 8192) (Page 1048578 False),
      CopyToUser (wb + 12288) (Page 1048579 False)]"
  by (simp add: large_events_def chunk_fpos_def large_karg_def example_karg_def
        PAGE_CACHE_SHIFT_def Let_def)

text \<open>
  Claim C10. The claim does not hold for a write-back buffer of 4 GiB or more: line
  1424 takes the product \<open>chunk_sz * (nr_chunks - nr_ram2gpu)\<close> in \<open>unsigned int\<close>. In the
  batch of the 262145 chunks 0, 1, ..., 262144 of 16 KiB, with every page of the file in
  the page cache, all chunks go down the write-back path and the call returns 0. The
  first of them, chunk 0, should be copied to the offset \<open>16384 * (262145 - 1)\<close>, that is
  \<open>4294967296\<close>, of the buffer; its four pages are copied to the offsets 0, 4096, 8192 and
  12288 instead, where the last of them, chunk 262144, is copied as well.
\<close>

theorem writeback_offset_wraps:
  "\<exists>st' t. memcpy_ssd2gpu_writeback (contiguous_env 8589934592 b0) large_mgmem large_ids
            (large_batch wb) = Inr (0, st') \<and>
     nr_ram2gpu (b_karg st') = 262145 \<and> nr_ssd2gpu (b_karg st') = 0 \<and>
     trace (b_world st') =
       [CallWriteback 0 0 wb, CopyToUser wb (Page 0 False), CopyToUser (wb + 4096) (Page 1 False),
        CopyToUser (wb + 8192) (Page 2 False), CopyToUser (wb + 12288) (Page 3 False)] @ t @
       [CallWriteback 262144 4294967296 wb, CopyToUser wb (Page 1048576 False),
        CopyToUser (wb + 4096) (Page 1048577 False), CopyToUser (wb + 8192) (Page 1048578 False),
        CopyToUser (wb + 12288) (Page 1048579 False)]"
proof -
  have n: "0 < (262144 :: nat)" "(262144 :: nat) < 262145" by simp_all
  from large_run [OF large_batch_inv n, where blk = b0 and dest = 0 and wb = wb] obtain st1 t where
    r: "chunk_loop (contiguous_env 8589934592 b0) large_mgmem 4 2 large_ids 0 (large_batch wb) =
          Inr (0, 0, st1)"
    and inv: "large_inv wb (Suc 262144) st1"
    and tr: "trace (b_world st1) =
          trace (b_world (large_batch wb)) @ large_events wb 0 @ t @ large_events wb 262144"
    unfolding large_ids_upt by blast
  from inv have k1: "b_karg st1 = (large_karg wb)\<lparr>nr_ram2gpu := 262145\<rparr>"
    and nb: "nr_blocks (b_dtask st1) = 0"
    by (simp_all add: large_inv_def)
  have tk: "take 262145 large_ids = large_ids" by (simp add: large_ids_length)
  have sel: "b_karg (large_batch wb) = large_karg wb" "chunk_sz (large_karg wb) = 16384"
    "nr_chunks (large_karg wb) = 262145" "offset (large_karg wb) = 0"
    "nr_ssd2gpu (large_karg wb) = 0"
    "map_offset large_mgmem = 0" "map_length large_mgmem = 8589934592"
    by (simp_all add: large_batch_def large_karg_def example_karg_def large_mgmem_def
          example_mgmem_def)
  have run: "memcpy_ssd2gpu_writeback (contiguous_env 8589934592 b0) large_mgmem large_ids
      (large_batch wb) = Inr (0, st1)"
    by (simp add: memcpy_ssd2gpu_writeback_def sel PAGE_CACHE_SHIFT_def PAGE_CACHE_SIZE_def
          STROM_DMA_SSD2GPU_MAXLEN_def large_ids_length tk r k1 nb Let_def)
  from tr have tr': "trace (b_world st1) = large_events wb 0 @ t @ large_events wb 262144"
    by (simp add: large_batch_def)
  from run k1 tr' show ?thesis
    unfolding large_events_first large_events_last
    by (intro exI [of _ st1] exI [of _ t]) (simp add: large_karg_def example_karg_def)
qed

text \<open>The theorem for the buffer at \<open>0x7fff00000000\<close> and a file that starts at block 1000.\<close>

theorem writeback_offset_wraps_witness:
  "\<exists>st' t. memcpy_ssd2gpu_writeback (contiguous_env 8589934592 1000) large_mgmem large_ids
            (large_batch 0x7fff00000000) = Inr (0, st') \<and>
     nr_ram2gpu (b_karg st') = 262145 \<and> nr_ssd2gpu (b_karg st') = 0 \<and>
     trace (b_world st') =
       [CallWriteback 0 0 0x7fff00000000, CopyToUser 0x7fff00000000 (Page 0 False),
        CopyToUser 0x7fff00001000 (Page 1 False), CopyToUser 0x7fff00002000 (Page 2 False),
        CopyToUser 0x7fff00003000 (Page 3 False)] @ t @
       [CallWriteback 262144 4294967296 0x7fff00000000,
        CopyToUser 0x7fff00000000 (Page 1048576 False),
        CopyToUser 0x7fff00001000 (Page 1048577 False),
        CopyToUser 0x7fff00002000 (Page 1048578 False),
        CopyToUser 0x7fff00003000 (Page 1048579 False)]"
  using writeback_offset_wraps [of 1000 "0x7fff00000000"] by simp


end
